theory Spec2Isabelle
  imports Complex_Main "HOL-Library.Multiset"
begin

section \<open>Numbers of the program\<close>

text \<open>
  The program computes with IEEE doubles, which reach it in two dynamic types: Python's
  own \<open>float\<close> and numpy's \<open>float64\<close> scalars (what pandas and scipy return).  A double
  is modelled by its value: a real number when it is finite, or one of the three special
  values.  Rounding error, overflow, underflow and the sign of zero are not modelled (a
  zero is \<open>+0.0\<close>).  The dynamic type is kept, because it decides what a division by
  zero does: between two Python floats it raises, and as soon as one operand is a numpy
  scalar it yields an infinity or NaN.
\<close>

datatype fval = Fin real | PInf | NInf | NaN

datatype pynum = PyFloat fval | NpFloat fval

datatype error = ZeroDivisionError | ValueError | OverflowError | KeyError | IndexError

fun val :: "pynum \<Rightarrow> fval" where
  "val (PyFloat x) = x"
| "val (NpFloat x) = x"

fun is_np :: "pynum \<Rightarrow> bool" where
  "is_np (PyFloat x) = False"
| "is_np (NpFloat x) = True"

definition mk :: "bool \<Rightarrow> fval \<Rightarrow> pynum" where
  "mk np x = (if np then NpFloat x else PyFloat x)"

text \<open>Sequencing: the first exception ends the computation.\<close>

definition and_then :: "'err + 'v \<Rightarrow> ('v \<Rightarrow> 'err + 'w) \<Rightarrow> 'err + 'w" where
  "and_then outcome continue =
     (case outcome of Inl raised \<Rightarrow> Inl raised | Inr v \<Rightarrow> continue v)"

subsection \<open>Arithmetic on values\<close>

fun fneg :: "fval \<Rightarrow> fval" where
  "fneg (Fin a) = Fin (- a)"
| "fneg PInf = NInf"
| "fneg NInf = PInf"
| "fneg NaN = NaN"

fun fadd :: "fval \<Rightarrow> fval \<Rightarrow> fval" where
  "fadd NaN y = NaN"
| "fadd x NaN = NaN"
| "fadd (Fin a) (Fin b) = Fin (a + b)"
| "fadd (Fin a) y = y"
| "fadd x (Fin b) = x"
| "fadd PInf PInf = PInf"
| "fadd NInf NInf = NInf"
| "fadd PInf NInf = NaN"
| "fadd NInf PInf = NaN"

definition fsub :: "fval \<Rightarrow> fval \<Rightarrow> fval" where
  "fsub x y = fadd x (fneg y)"

text \<open>The infinity with the sign of a real; of a zero, the positive one.\<close>

definition inf_sgn :: "real \<Rightarrow> fval" where
  "inf_sgn a = (if a < 0 then NInf else PInf)"

fun fmul :: "fval \<Rightarrow> fval \<Rightarrow> fval" where
  "fmul NaN y = NaN"
| "fmul x NaN = NaN"
| "fmul (Fin a) (Fin b) = Fin (a * b)"
| "fmul (Fin a) y = (if a = 0 then NaN else if a < 0 then fneg y else y)"
| "fmul x (Fin b) = (if b = 0 then NaN else if b < 0 then fneg x else x)"
| "fmul PInf y = y"
| "fmul NInf y = fneg y"

fun fdiv :: "fval \<Rightarrow> fval \<Rightarrow> fval" where
  "fdiv NaN y = NaN"
| "fdiv x NaN = NaN"
| "fdiv (Fin a) (Fin b) =
     (if b = 0 then (if a = 0 then NaN else inf_sgn a) else Fin (a / b))"
| "fdiv (Fin a) y = Fin 0"
| "fdiv x (Fin b) = (if b < 0 then fneg x else x)"
| "fdiv x y = NaN"

text \<open>
  Floor division (\<open>//\<close>): the floor of the exact quotient; by zero it is the plain
  quotient; an infinite dividend gives NaN; by an infinity, 0 or -1.
\<close>

fun ffloordiv :: "fval \<Rightarrow> fval \<Rightarrow> fval" where
  "ffloordiv NaN y = NaN"
| "ffloordiv x NaN = NaN"
| "ffloordiv (Fin a) (Fin b) =
     (if b = 0 then fdiv (Fin a) (Fin b) else Fin (of_int \<lfloor>a / b\<rfloor>))"
| "ffloordiv (Fin a) PInf = (if a < 0 then Fin (- 1) else Fin 0)"
| "ffloordiv (Fin a) NInf = (if 0 < a then Fin (- 1) else Fin 0)"
| "ffloordiv x y = NaN"

text \<open>Comparison \<open>x > y\<close>: false as soon as one side is NaN.\<close>

fun fgt :: "fval \<Rightarrow> fval \<Rightarrow> bool" where
  "fgt NaN y = False"
| "fgt x NaN = False"
| "fgt (Fin a) (Fin b) = (b < a)"
| "fgt PInf y = (y \<noteq> PInf)"
| "fgt x NInf = (x \<noteq> NInf)"
| "fgt x y = False"

subsection \<open>Operators on Python numbers\<close>

text \<open>The result is a numpy scalar as soon as one operand is.\<close>

definition py_add :: "pynum \<Rightarrow> pynum \<Rightarrow> pynum" where
  "py_add x y = mk (is_np x \<or> is_np y) (fadd (val x) (val y))"

definition py_sub :: "pynum \<Rightarrow> pynum \<Rightarrow> pynum" where
  "py_sub x y = mk (is_np x \<or> is_np y) (fsub (val x) (val y))"

definition py_mul :: "pynum \<Rightarrow> pynum \<Rightarrow> pynum" where
  "py_mul x y = mk (is_np x \<or> is_np y) (fmul (val x) (val y))"

definition py_neg :: "pynum \<Rightarrow> pynum" where
  "py_neg x = mk (is_np x) (fneg (val x))"

text \<open>\<open>x ** 2\<close>\<close>

definition py_sq :: "pynum \<Rightarrow> pynum" where
  "py_sq x = mk (is_np x) (fmul (val x) (val x))"

text \<open>
  \<open>x / y\<close>: Python's float division raises on a zero divisor; numpy's does not.
\<close>

definition py_truediv :: "pynum \<Rightarrow> pynum \<Rightarrow> error + pynum" where
  "py_truediv x y =
     (if \<not> is_np x \<and> \<not> is_np y \<and> val y = Fin 0 then Inl ZeroDivisionError
      else Inr (mk (is_np x \<or> is_np y) (fdiv (val x) (val y))))"

definition py_floordiv :: "pynum \<Rightarrow> pynum \<Rightarrow> error + pynum" where
  "py_floordiv x y =
     (if \<not> is_np x \<and> \<not> is_np y \<and> val y = Fin 0 then Inl ZeroDivisionError
      else Inr (mk (is_np x \<or> is_np y) (ffloordiv (val x) (val y))))"

definition py_gt :: "pynum \<Rightarrow> pynum \<Rightarrow> bool" where
  "py_gt x y = fgt (val x) (val y)"

text \<open>\<open>int(x)\<close> truncates towards zero and raises on NaN and on the infinities.\<close>

fun py_int :: "pynum \<Rightarrow> error + int" where
  "py_int x =
     (case val x of
        NaN \<Rightarrow> Inl ValueError
      | PInf \<Rightarrow> Inl OverflowError
      | NInf \<Rightarrow> Inl OverflowError
      | Fin a \<Rightarrow> Inr (if 0 \<le> a then \<lfloor>a\<rfloor> else \<lceil>a\<rceil>))"

section \<open>Affordability\<close>

text \<open>
  Line 113 of \<open>main\<close>:
  \<^verbatim>\<open>int(user_liquidity // (call_price * 100)) if call_price > 0 else 0\<close>
\<close>

definition affordable_contracts :: "pynum \<Rightarrow> pynum \<Rightarrow> error + int" where
  "affordable_contracts user_liquidity call_price =
     (if py_gt call_price (PyFloat (Fin 0))
      then and_then (py_floordiv user_liquidity (py_mul call_price (PyFloat (Fin 100)))) py_int
      else Inr 0)"

section \<open>Historical volatility\<close>

text \<open>
  A pandas DataFrame as the program uses it: an index (the dates, as day numbers) and
  named columns of doubles, each as long as the index.  \<open>fetch_price_data\<close> returns a
  frame whose only column is \<open>adj_close\<close>, sorted by date.
\<close>

record dataframe =
  index :: "nat list"
  columns :: "string \<rightharpoonup> fval list"

definition len :: "dataframe \<Rightarrow> nat" where
  "len df = length (index df)"

text \<open>\<open>df[name]\<close>: the column, KeyError when there is none of that name.\<close>

definition getitem :: "dataframe \<Rightarrow> string \<Rightarrow> error + fval list" where
  "getitem df name = (case columns df name of None \<Rightarrow> Inl KeyError | Some c \<Rightarrow> Inr c)"

text \<open>\<open>Series.shift(1)\<close>: every value moves one row down, the first row becomes NaN.\<close>

definition shift1 :: "fval list \<Rightarrow> fval list" where
  "shift1 xs = (if xs = [] then [] else NaN # butlast xs)"

text \<open>\<open>np.log\<close> and \<open>np.sqrt\<close> never raise.\<close>

fun np_log :: "fval \<Rightarrow> fval" where
  "np_log (Fin a) = (if 0 < a then Fin (ln a) else if a = 0 then NInf else NaN)"
| "np_log PInf = PInf"
| "np_log NInf = NaN"
| "np_log NaN = NaN"

fun np_sqrt :: "fval \<Rightarrow> fval" where
  "np_sqrt (Fin a) = (if 0 \<le> a then Fin (sqrt a) else NaN)"
| "np_sqrt PInf = PInf"
| "np_sqrt NInf = NaN"
| "np_sqrt NaN = NaN"

fun fsum :: "fval list \<Rightarrow> fval" where
  "fsum [] = Fin 0"
| "fsum (x # xs) = fadd x (fsum xs)"

text \<open>
  \<open>Series.std()\<close> with its defaults \<open>skipna=True\<close>, \<open>ddof=1\<close>: the NaN entries are
  dropped; with fewer than two entries left the result is NaN; otherwise the square root
  of the sum of squared deviations from the mean, divided by the count minus one.
\<close>

definition nanvar :: "fval list \<Rightarrow> fval" where
  "nanvar xs =
     (let ys = filter (\<lambda>x. x \<noteq> NaN) xs;
          n = length ys
      in if n \<le> 1 then NaN
         else let avg = fdiv (fsum ys) (Fin (real n));
                  sqr = map (\<lambda>y. fmul (fsub avg y) (fsub avg y)) ys
              in fdiv (fsum sqr) (Fin (real (n - 1))))"

definition std :: "fval list \<Rightarrow> fval" where
  "std xs = np_sqrt (nanvar xs)"

text \<open>
  \<^verbatim>\<open>df['log_return'] = np.log(df['adj_close'] / df['adj_close'].shift(1))\<close>
  \<^verbatim>\<open>sigma = df['log_return'].std() * np.sqrt(252)\<close>
  The function stores a column in the frame it is given; the frame after the call is
  returned beside the volatility.  Reading a missing column raises KeyError.
\<close>

definition calculate_volatility :: "dataframe \<Rightarrow> error + (pynum \<times> dataframe)" where
  "calculate_volatility df =
     and_then (getitem df ''adj_close'') (\<lambda>adj_close.
       let log_return = map np_log (map2 fdiv adj_close (shift1 adj_close));
           df' = df\<lparr>columns := (columns df)(''log_return'' \<mapsto> log_return)\<rparr>;
           sigma = NpFloat (fmul (std log_return) (np_sqrt (Fin 252)))
       in Inr (sigma, df'))"

subsection \<open>The estimator as the specification words it\<close>

text \<open>
  The daily log returns \<open>ln (P\<^sub>t / P\<^sub>t\<^sub>-\<^sub>1)\<close> of the consecutive pairs, their sample standard
  deviation, and the annualisation by \<open>\<surd>252\<close>.
\<close>

definition log_returns :: "real list \<Rightarrow> real list" where
  "log_returns ps = map (\<lambda>(prev, cur). ln (cur / prev)) (zip ps (tl ps))"

definition mean :: "real list \<Rightarrow> real" where
  "mean xs = sum_list xs / real (length xs)"

definition sample_std :: "real list \<Rightarrow> real" where
  "sample_std xs = sqrt (sum_list (map (\<lambda>x. (x - mean xs)\<^sup>2) xs) / real (length xs - 1))"

definition annualized_volatility :: "real list \<Rightarrow> real" where
  "annualized_volatility ps = sample_std (log_returns ps) * sqrt 252"

text \<open>The frame that holds a series of finite prices, one per day.\<close>

definition price_frame :: "real list \<Rightarrow> dataframe" where
  "price_frame ps =
     \<lparr>index = [0 ..< length ps], columns = [''adj_close'' \<mapsto> map Fin ps]\<rparr>"

section \<open>The standard normal distribution\<close>

text \<open>
  \<open>scipy.stats.norm\<close> supplies the density and the cumulative distribution.  The density
  is closed form.  The distribution function is \<open>1/2\<close> plus the integral of the density
  from 0, written as its power series
  \<open>\<Sum>m. (-1)\<^sup>m x\<^sup>2\<^sup>m\<^sup>+\<^sup>1 / (2\<^sup>m m! (2m+1))\<close> over \<open>\<surd>(2\<pi>)\<close>.
\<close>

definition cdf_coeff :: "nat \<Rightarrow> real" where
  "cdf_coeff n =
     (if even n then 0
      else (- 1) ^ ((n - 1) div 2) / (2 ^ ((n - 1) div 2) * fact ((n - 1) div 2) * real n))"

definition gauss_series :: "real \<Rightarrow> real" where
  "gauss_series x = (\<Sum>n. cdf_coeff n * x ^ n)"

definition std_normal_pdf :: "real \<Rightarrow> real" where
  "std_normal_pdf x = exp (- (x\<^sup>2) / 2) / sqrt (2 * pi)"

definition std_normal_cdf :: "real \<Rightarrow> real" where
  "std_normal_cdf x = 1 / 2 + gauss_series x / sqrt (2 * pi)"

text \<open>Both return numpy scalars; at the infinities they take their limits.\<close>

fun norm_cdf :: "pynum \<Rightarrow> pynum" where
  "norm_cdf x =
     NpFloat (case val x of
        Fin a \<Rightarrow> Fin (std_normal_cdf a)
      | PInf \<Rightarrow> Fin 1
      | NInf \<Rightarrow> Fin 0
      | NaN \<Rightarrow> NaN)"

fun norm_pdf :: "pynum \<Rightarrow> pynum" where
  "norm_pdf x =
     NpFloat (case val x of
        Fin a \<Rightarrow> Fin (std_normal_pdf a)
      | PInf \<Rightarrow> Fin 0
      | NInf \<Rightarrow> Fin 0
      | NaN \<Rightarrow> NaN)"

section \<open>The option pricer\<close>

text \<open>
  The functions of Python's \<open>math\<close> module return Python floats.  \<open>log\<close> raises
  ValueError outside its domain, \<open>sqrt\<close> on a negative number.
\<close>

fun math_log :: "pynum \<Rightarrow> error + pynum" where
  "math_log x =
     (case val x of
        Fin a \<Rightarrow> if 0 < a then Inr (PyFloat (Fin (ln a))) else Inl ValueError
      | PInf \<Rightarrow> Inr (PyFloat PInf)
      | NInf \<Rightarrow> Inl ValueError
      | NaN \<Rightarrow> Inr (PyFloat NaN))"

fun math_sqrt :: "pynum \<Rightarrow> error + pynum" where
  "math_sqrt x =
     (case val x of
        Fin a \<Rightarrow> if 0 \<le> a then Inr (PyFloat (Fin (sqrt a))) else Inl ValueError
      | PInf \<Rightarrow> Inr (PyFloat PInf)
      | NInf \<Rightarrow> Inl ValueError
      | NaN \<Rightarrow> Inr (PyFloat NaN))"

fun math_exp :: "pynum \<Rightarrow> pynum" where
  "math_exp x =
     PyFloat (case val x of
        Fin a \<Rightarrow> Fin (exp a)
      | PInf \<Rightarrow> PInf
      | NInf \<Rightarrow> Fin 0
      | NaN \<Rightarrow> NaN)"

text \<open>
  \<^verbatim>\<open>d1 = (log(S / K) + (r + 0.5 * sigma**2) * T) / (sigma * sqrt(T))\<close>
  \<^verbatim>\<open>d2 = d1 - sigma * sqrt(T)\<close>
  \<^verbatim>\<open>call_price = S * norm.cdf(d1) - K * exp(-r * T) * norm.cdf(d2)\<close>
  \<^verbatim>\<open>return call_price, norm.cdf(d1), S * norm.pdf(d1) * sqrt(T)\<close>
  The four operations that can raise do so in the order Python evaluates them.  There is
  no check of \<open>sigma\<close> or \<open>T\<close> before the division.
\<close>

definition black_scholes_call ::
  "pynum \<Rightarrow> pynum \<Rightarrow> pynum \<Rightarrow> pynum \<Rightarrow> pynum \<Rightarrow> error + (pynum \<times> pynum \<times> pynum)" where
  "black_scholes_call S K T r sigma =
     and_then (py_truediv S K) (\<lambda>q.
     and_then (math_log q) (\<lambda>l.
     and_then (math_sqrt T) (\<lambda>sqrt_T.
     and_then (py_truediv
                 (py_add l (py_mul (py_add r (py_mul (PyFloat (Fin (1 / 2))) (py_sq sigma))) T))
                 (py_mul sigma sqrt_T)) (\<lambda>d1.
       let d2 = py_sub d1 (py_mul sigma sqrt_T);
           call_price = py_sub (py_mul S (norm_cdf d1))
                          (py_mul (py_mul K (math_exp (py_mul (py_neg r) T))) (norm_cdf d2))
       in Inr (call_price, norm_cdf d1, py_mul (py_mul S (norm_pdf d1)) sqrt_T)))))"

subsection \<open>The closed formula\<close>

definition d1_formula :: "real \<Rightarrow> real \<Rightarrow> real \<Rightarrow> real \<Rightarrow> real \<Rightarrow> real" where
  "d1_formula S K T r sigma = (ln (S / K) + (r + sigma\<^sup>2 / 2) * T) / (sigma * sqrt T)"

definition d2_formula :: "real \<Rightarrow> real \<Rightarrow> real \<Rightarrow> real \<Rightarrow> real \<Rightarrow> real" where
  "d2_formula S K T r sigma = d1_formula S K T r sigma - sigma * sqrt T"

definition price_formula :: "real \<Rightarrow> real \<Rightarrow> real \<Rightarrow> real \<Rightarrow> real \<Rightarrow> real" where
  "price_formula S K T r sigma =
     S * std_normal_cdf (d1_formula S K T r sigma)
     - K * exp (- r * T) * std_normal_cdf (d2_formula S K T r sigma)"

section \<open>The risk-free rate\<close>

text \<open>
  What \<open>requests.get\<close> hands to its caller: an exception, or a response with a status
  code and a body.  Of a body only what the caller reads is kept: whether it is JSON at
  all, and then what the caller extracts from it.  \<open>fetch_risk_free_rate\<close> extracts the
  \<open>observations\<close> list, if there is one, and for each observation what \<open>float\<close> makes of
  its \<open>value\<close> (None where \<open>float\<close> raises ValueError).
\<close>

datatype 'a body = NotJson | Json 'a

record 'a response =
  status_code :: int
  content :: "'a body"

type_synonym rate_reply = "(fval option list) option response"

datatype http_error = RequestException | JSONDecodeError | PyError error

text \<open>
  The warnings shown to the user are the state; the function returns them extended.
\<close>

definition fetch_risk_free_rate ::
  "http_error + rate_reply \<Rightarrow> string list \<Rightarrow> (http_error + pynum) \<times> string list" where
  "fetch_risk_free_rate got warnings =
     (case got of
        Inl e \<Rightarrow> (Inl e, warnings)
      | Inr response \<Rightarrow>
          if status_code response = 200 then
            (case content response of
               NotJson \<Rightarrow> (Inl JSONDecodeError, warnings)
             | Json None \<Rightarrow> (Inl (PyError KeyError), warnings)
             | Json (Some observations) \<Rightarrow>
                 if observations = [] then (Inl (PyError IndexError), warnings)
                 else (case last observations of
                         None \<Rightarrow> (Inl (PyError ValueError), warnings)
                       | Some v \<Rightarrow>
                           (case py_truediv (PyFloat v) (PyFloat (Fin 100)) of
                              Inl e \<Rightarrow> (Inl (PyError e), warnings)
                            | Inr latest \<Rightarrow> (Inr latest, warnings))))
          else (Inr (PyFloat (Fin (5 / 100))),
                warnings @ [''Failed to fetch risk-free rate from FRED API.'']))"

section \<open>The price data\<close>

text \<open>
  \<open>fetch_price_data\<close>, lines 52 to 65.  From the JSON of a response it builds, inside a
  \<open>try\<close>, a frame of floats indexed by date, sorts it by date and keeps the adjusted
  close as the column \<open>adj_close\<close>.  Of the body is kept what these four lines make of
  it: the exception they raise, or the rows of the frame they build, each a date and its
  adjusted close, in date order.
\<close>

type_synonym price_reply = "(error + (nat \<times> fval) list) response"

definition frame_of :: "(nat \<times> fval) list \<Rightarrow> dataframe" where
  "frame_of rows = \<lparr>index = map fst rows, columns = [''adj_close'' \<mapsto> map snd rows]\<rparr>"

text \<open>
  The request and the decoding of the body stand outside the \<open>try\<close>, and the \<open>try\<close>
  catches KeyError only: any other exception leaves the function.  A status other than
  200 and a KeyError give None.
\<close>

definition fetch_price_data :: "http_error + price_reply \<Rightarrow> http_error + dataframe option" where
  "fetch_price_data got =
     (case got of
        Inl e \<Rightarrow> Inl e
      | Inr response \<Rightarrow>
          if status_code response = 200 then
            (case content response of
               NotJson \<Rightarrow> Inl JSONDecodeError
             | Json built \<Rightarrow>
                 (case built of
                    Inl e \<Rightarrow> if e = KeyError then Inr None else Inl (PyError e)
                  | Inr rows \<Rightarrow> Inr (Some (frame_of rows))))
          else Inr None)"

section \<open>The screening run\<close>

text \<open>
  \<open>round(x, n)\<close> on a double: the nearest multiple of \<open>10\<^sup>-\<^sup>n\<close>, a tie going to the even
  neighbour; NaN and the infinities are left as they are.
\<close>

definition rint :: "real \<Rightarrow> int" where
  "rint x =
     (let f = \<lfloor>x\<rfloor>; d = x - of_int f
      in if d < 1 / 2 then f else if 1 / 2 < d then f + 1 else if even f then f else f + 1)"

fun fround :: "nat \<Rightarrow> fval \<Rightarrow> fval" where
  "fround n (Fin a) = Fin (of_int (rint (a * 10 ^ n)) / 10 ^ n)"
| "fround n x = x"

definition py_round :: "pynum \<Rightarrow> nat \<Rightarrow> fval" where
  "py_round x n = fround n (val x)"

text \<open>One entry of \<open>results\<close>, with the keys of the dictionary as fields.\<close>

record result_row =
  Ticker :: string
  Price :: fval
  Volatility :: fval
  Call_Price :: fval
  Delta :: fval
  Vega :: fval
  Contracts_You_Can_Afford :: int

text \<open>\<open>series.iloc[-1]\<close>: the last value, IndexError on an empty series.\<close>

definition iloc_last :: "fval list \<Rightarrow> error + pynum" where
  "iloc_last xs = (if xs = [] then Inl IndexError else Inr (NpFloat (last xs)))"

text \<open>
  The body of the loop, lines 108 to 123, for one ticker and what \<open>fetch_price_data\<close>
  returned for it (None, or a frame).  It yields the row to append, if any.
\<close>

definition process_ticker ::
  "pynum \<Rightarrow> pynum \<Rightarrow> pynum \<Rightarrow> string \<Rightarrow> dataframe option \<Rightarrow> error + result_row option" where
  "process_ticker T risk_free_rate user_liquidity ticker fetched =
     (case fetched of
        None \<Rightarrow> Inr None
      | Some df \<Rightarrow>
          if len df \<ge> 30 then
            and_then (getitem df ''adj_close'') (\<lambda>adj_close.
            and_then (iloc_last adj_close) (\<lambda>S.
            and_then (calculate_volatility df) (\<lambda>(sigma, df').
            and_then (black_scholes_call S S T risk_free_rate sigma) (\<lambda>(call_price, delta, vega).
            and_then (affordable_contracts user_liquidity call_price) (\<lambda>affordable.
              Inr (Some \<lparr>Ticker = ticker,
                         Price = py_round S 2,
                         Volatility = py_round sigma 4,
                         Call_Price = py_round call_price 2,
                         Delta = py_round delta 4,
                         Vega = py_round vega 4,
                         Contracts_You_Can_Afford = affordable\<rparr>))))))
          else Inr None)"

text \<open>
  The loop over \<open>tickers[:selected_count]\<close>.  \<open>requests_get\<close> is the network: what the
  request for a ticker's prices yields.  Each turn calls \<open>fetch_price_data\<close>, line 105,
  with no handler around it; then it appends to \<open>results\<close> and reports the progress
  \<open>(i + 1) / selected_count\<close>.  An exception of the fetch or of the body ends the run.
  The pause between two requests is left out.
\<close>

fun main_loop ::
  "(string \<Rightarrow> http_error + price_reply) \<Rightarrow> pynum \<Rightarrow> pynum \<Rightarrow> pynum \<Rightarrow> nat \<Rightarrow> nat
     \<Rightarrow> string list \<Rightarrow> result_row list \<Rightarrow> real list
     \<Rightarrow> http_error + (result_row list \<times> real list)" where
  "main_loop requests_get T r user_liquidity selected_count i [] results progress =
     Inr (results, progress)"
| "main_loop requests_get T r user_liquidity selected_count i (ticker # rest) results progress =
     (case fetch_price_data (requests_get ticker) of
        Inl e \<Rightarrow> Inl e
      | Inr df \<Rightarrow>
          (case process_ticker T r user_liquidity ticker df of
             Inl e \<Rightarrow> Inl (PyError e)
           | Inr row \<Rightarrow>
               main_loop requests_get T r user_liquidity selected_count (Suc i) rest
                 (results @ (case row of None \<Rightarrow> [] | Some x \<Rightarrow> [x]))
                 (progress @ [real (i + 1) / real selected_count])))"

text \<open>
  \<open>main\<close> up to the end of the loop: the rate is fetched once, \<open>T = 30 / 365\<close>, and the
  first \<open>selected_count\<close> tickers are screened.
\<close>

record run =
  final_results :: "result_row list"
  progress_shown :: "real list"
  warnings_shown :: "string list"

definition main ::
  "string list \<Rightarrow> nat \<Rightarrow> pynum \<Rightarrow> http_error + rate_reply
     \<Rightarrow> (string \<Rightarrow> http_error + price_reply) \<Rightarrow> http_error + run" where
  "main tickers selected_count user_liquidity rate_response requests_get =
     (case fetch_risk_free_rate rate_response [] of
        (Inl e, w) \<Rightarrow> Inl e
      | (Inr risk_free_rate, w) \<Rightarrow>
          (case main_loop requests_get (PyFloat (Fin (30 / 365))) risk_free_rate
                  user_liquidity selected_count 0 (take selected_count tickers) [] [] of
             Inl e \<Rightarrow> Inl e
           | Inr (res, prog) \<Rightarrow>
               Inr \<lparr>final_results = res, progress_shown = prog, warnings_shown = w\<rparr>))"

text \<open>
  What \<open>fetch_price_data\<close> builds when it does not return None: a frame with an
  \<open>adj_close\<close> value for every date.  And the test of line 108, on what the fetch
  returned and on its outcome.
\<close>

definition price_data :: "dataframe \<Rightarrow> bool" where
  "price_data df =
     (case columns df ''adj_close'' of None \<Rightarrow> False | Some c \<Rightarrow> length c = len df)"

definition fetched_ok :: "dataframe option \<Rightarrow> bool" where
  "fetched_ok fetched = (case fetched of None \<Rightarrow> True | Some df \<Rightarrow> price_data df)"

definition has_history :: "dataframe option \<Rightarrow> bool" where
  "has_history fetched = (case fetched of None \<Rightarrow> False | Some df \<Rightarrow> 30 \<le> len df)"

definition gives_history :: "http_error + dataframe option \<Rightarrow> bool" where
  "gives_history outcome =
     (case outcome of Inl e \<Rightarrow> False | Inr fetched \<Rightarrow> has_history fetched)"

text \<open>
  For examples: the rows of a series of finite prices on consecutive days, and a network
  given by a table, which answers 404 for a ticker that is not in the table.
\<close>

definition daily :: "real list \<Rightarrow> (nat \<times> fval) list" where
  "daily ps = zip [0 ..< length ps] (map Fin ps)"

definition replies ::
  "(string \<times> (http_error + price_reply)) list \<Rightarrow> string \<Rightarrow> http_error + price_reply" where
  "replies table ticker =
     (case map_of table ticker of
        None \<Rightarrow> Inr \<lparr>status_code = 404, content = NotJson\<rparr>
      | Some got \<Rightarrow> got)"

section \<open>The leaderboard\<close>

text \<open>
  \<^verbatim>\<open>results_df.sort_values(by='Call Price', ascending=False).head(25)\<close>
  pandas sorts with numpy's \<open>quicksort\<close> unless told otherwise, and documents that only
  \<open>mergesort\<close> and \<open>stable\<close> keep the order of equal keys.  So the sort is modelled by
  what it guarantees: the result is a rearrangement of the rows in which no row stands
  before a row of greater key, and the rows whose key is NaN stand last.
\<close>

definition key_before :: "fval \<Rightarrow> fval \<Rightarrow> bool" where
  "key_before a b = (b = NaN \<or> (a \<noteq> NaN \<and> \<not> fgt b a))"

definition sort_values_desc :: "result_row list \<Rightarrow> result_row list \<Rightarrow> bool" where
  "sort_values_desc rows sorted_rows =
     (mset sorted_rows = mset rows
      \<and> sorted_wrt (\<lambda>a b. key_before (Call_Price a) (Call_Price b)) sorted_rows)"

abbreviation (input) row_before :: "result_row \<Rightarrow> result_row \<Rightarrow> bool" where
  "row_before a b \<equiv> key_before (Call_Price a) (Call_Price b)"

text \<open>
  Lines 129 to 131: with no results nothing is shown; otherwise the first 25 rows of the
  sorted table.
\<close>

inductive top_25 :: "result_row list \<Rightarrow> result_row list \<Rightarrow> bool" where
  no_results: "top_25 [] []"
| table: "results \<noteq> [] \<Longrightarrow> sort_values_desc results sorted_rows
            \<Longrightarrow> top_25 results (take 25 sorted_rows)"

subsection \<open>The ranking as the specification words it\<close>

text \<open>
  A stable sort by call price, descending: a row is put before the first row that it may
  precede, so rows of equal key keep their order of insertion.
\<close>

fun insert_desc :: "result_row \<Rightarrow> result_row list \<Rightarrow> result_row list" where
  "insert_desc r [] = [r]"
| "insert_desc r (x # xs) =
     (if key_before (Call_Price r) (Call_Price x) then r # x # xs else x # insert_desc r xs)"

definition stable_sort_desc :: "result_row list \<Rightarrow> result_row list" where
  "stable_sort_desc rows = foldr insert_desc rows []"

definition leaderboard :: "result_row list \<Rightarrow> result_row list" where
  "leaderboard rows = take 25 (stable_sort_desc rows)"

text \<open>A row for examples: a ticker and its call price, the other fields being the same.\<close>

definition example_row :: "string \<Rightarrow> real \<Rightarrow> result_row" where
  "example_row ticker call_price =
     \<lparr>Ticker = ticker, Price = Fin 50, Volatility = Fin (1 / 5), Call_Price = Fin call_price,
      Delta = Fin (1 / 2), Vega = Fin 6, Contracts_You_Can_Afford = 1\<rparr>"

section \<open>Properties\<close>

lemma and_then_simps [simp]:
  "and_then (Inl e) f = Inl e"
  "and_then (Inr x) f = f x"
  by (simp_all add: and_then_def)

subsection \<open>Affordability\<close>

lemma affordable_contracts_fin:
  "affordable_contracts (mk k (Fin c)) (mk k' (Fin p)) =
     Inr (if 0 < p then \<lfloor>c / (100 * p)\<rfloor> else 0)"
proof (cases "0 < p")
  case True
  have "\<lceil>(of_int \<lfloor>c / (p * 100)\<rfloor> :: real)\<rceil> = \<lfloor>c / (p * 100)\<rfloor>"
    by simp
  with True show ?thesis
    by (simp add: affordable_contracts_def py_gt_def py_floordiv_def py_mul_def mk_def
        mult.commute)
next
  case False
  then show ?thesis
    by (simp add: affordable_contracts_def py_gt_def mk_def)
qed

text \<open>
  C4.  For every capital \<open>c \<ge> 0\<close> and finite call price \<open>p\<close>, whatever the dynamic types
  of the two numbers, the affordability expression returns \<open>\<lfloor>c / (100 p)\<rfloor>\<close> when
  \<open>p > 0\<close> and exactly 0 when \<open>p \<le> 0\<close>; it raises nothing, the count is never negative,
  and for a fixed \<open>p > 0\<close> it does not decrease when the capital grows.
\<close>

theorem affordable_contracts_floor_monotone:
  assumes "0 \<le> c" and "c \<le> c'"
  shows "affordable_contracts (mk k (Fin c)) (mk k' (Fin p)) =
           Inr (if 0 < p then \<lfloor>c / (100 * p)\<rfloor> else 0)
         \<and> (\<exists>n n'. affordable_contracts (mk k (Fin c)) (mk k' (Fin p)) = Inr n
                \<and> affordable_contracts (mk k (Fin c')) (mk k' (Fin p)) = Inr n'
                \<and> 0 \<le> n \<and> n \<le> n')"
proof (cases "0 < p")
  case True
  then have "c / (100 * p) \<le> c' / (100 * p)"
    using assms by (simp add: divide_right_mono)
  then have "\<lfloor>c / (100 * p)\<rfloor> \<le> \<lfloor>c' / (100 * p)\<rfloor>"
    by (rule floor_mono)
  moreover have "0 \<le> \<lfloor>c / (100 * p)\<rfloor>"
    using True assms by simp
  ultimately show ?thesis
    using True by (simp add: affordable_contracts_fin)
next
  case False
  then show ?thesis
    by (simp add: affordable_contracts_fin)
qed

theorem affordable_contracts_example:
  "(0::real) \<le> 1000 \<and> (1000::real) \<le> 1250
   \<and> affordable_contracts (PyFloat (Fin 1000)) (NpFloat (Fin (5/2))) = Inr 4"
proof -
  have h: "(0::real) \<le> 1000" "(1000::real) \<le> 1250" by simp_all
  have m: "mk False (Fin 1000) = PyFloat (Fin 1000)"
    "mk True (Fin (5/2)) = NpFloat (Fin (5/2))"
    by (simp_all add: mk_def)
  from affordable_contracts_floor_monotone [OF h, of False True "5/2"]
  show ?thesis
    unfolding m by simp
qed

subsection \<open>The normal distribution function and its derivative\<close>

lemma exp_sums_div: "(\<lambda>m. (z::real) ^ m / fact m) sums exp z"
  using exp_converges [of z] by (simp add: field_simps)

lemma cdf_coeff_odd:
  "cdf_coeff (Suc (2 * m)) = (- 1) ^ m / (2 ^ m * fact m * real (Suc (2 * m)))"
  by (simp add: cdf_coeff_def)

lemma cdf_coeff_even: "even n \<Longrightarrow> cdf_coeff n = 0"
  by (simp add: cdf_coeff_def)

lemma cdf_coeff_summable: "summable (\<lambda>n. cdf_coeff n * y ^ n)"
proof -
  define g where "g m = cdf_coeff (Suc (2 * m)) * y ^ Suc (2 * m)" for m
  have "summable (\<lambda>m. (y\<^sup>2 / 2) ^ m / fact m)"
    using exp_sums_div by (rule sums_summable)
  then have "summable (\<lambda>m. \<bar>y\<bar> * ((y\<^sup>2 / 2) ^ m / fact m))"
    by (rule summable_mult)
  moreover have "norm (g m) \<le> \<bar>y\<bar> * ((y\<^sup>2 / 2) ^ m / fact m)" for m
  proof -
    have p: "\<bar>y\<bar> ^ Suc (2 * m) = \<bar>y\<bar> * (y\<^sup>2) ^ m"
      by (simp add: power_mult)
    have "norm (g m) = \<bar>y\<bar> ^ Suc (2 * m) / (2 ^ m * fact m * real (Suc (2 * m)))"
      unfolding g_def cdf_coeff_odd
      by (simp add: abs_mult power_abs del: power_Suc of_nat_Suc)
    also have "\<dots> = \<bar>y\<bar> * ((y\<^sup>2 / 2) ^ m / fact m) / real (Suc (2 * m))"
      unfolding p by (simp add: power_divide del: of_nat_Suc)
    also have "\<dots> \<le> \<bar>y\<bar> * ((y\<^sup>2 / 2) ^ m / fact m) / 1"
    proof (rule divide_left_mono)
      show "1 \<le> real (Suc (2 * m))" by simp
      show "0 \<le> \<bar>y\<bar> * ((y\<^sup>2 / 2) ^ m / fact m)" by simp
      show "0 < real (Suc (2 * m)) * 1" by simp
    qed
    finally show ?thesis by simp
  qed
  ultimately have "summable g"
    by (rule summable_comparison_test' [where N = 0])
  then have "g sums suminf g"
    by (rule summable_sums)
  then have "(\<lambda>n. if even n then 0 else g ((n - 1) div 2)) sums suminf g"
    by (rule sums_if')
  moreover have "(\<lambda>n. if even n then 0 else g ((n - 1) div 2)) = (\<lambda>n. cdf_coeff n * y ^ n)"
  proof
    fix n
    show "(if even n then 0 else g ((n - 1) div 2)) = cdf_coeff n * y ^ n"
    proof (cases "even n")
      case True
      then show ?thesis by (simp add: cdf_coeff_even)
    next
      case False
      then obtain m where n: "n = Suc (2 * m)" by (auto elim: oddE)
      show ?thesis unfolding n g_def by simp
    qed
  qed
  ultimately show ?thesis
    by (simp add: sums_iff)
qed

lemma diffs_cdf_coeff_sums: "(\<lambda>n. diffs cdf_coeff n * x ^ n) sums exp (- (x\<^sup>2) / 2)"
proof -
  define h where "h m = (- (x\<^sup>2) / 2) ^ m / fact m" for m
  have "h sums exp (- (x\<^sup>2) / 2)"
    unfolding h_def by (rule exp_sums_div)
  moreover have "(\<lambda>n::nat. 0::real) sums 0" by simp
  ultimately have "(\<lambda>n. if even n then h (n div 2) else 0) sums (0 + exp (- (x\<^sup>2) / 2))"
    by (rule sums_if [rotated])
  moreover have "(\<lambda>n. if even n then h (n div 2) else 0) = (\<lambda>n. diffs cdf_coeff n * x ^ n)"
  proof
    fix n
    show "(if even n then h (n div 2) else 0) = diffs cdf_coeff n * x ^ n"
    proof (cases "even n")
      case True
      then obtain m where n: "n = 2 * m" by (auto elim: evenE)
      have "(- (x\<^sup>2) / 2) ^ m = ((- 1) * (x\<^sup>2 / 2)) ^ m"
        by simp
      also have "\<dots> = (- 1) ^ m * (x\<^sup>2 / 2) ^ m"
        by (rule power_mult_distrib)
      also have "\<dots> = (- 1) ^ m * x ^ (2 * m) / 2 ^ m"
        by (simp add: power_divide power_mult)
      finally have l: "h m = (- 1) ^ m * x ^ (2 * m) / 2 ^ m / fact m"
        by (simp add: h_def)
      have "diffs cdf_coeff (2 * m) * x ^ (2 * m) =
          real (Suc (2 * m)) * ((- 1) ^ m / (2 ^ m * fact m * real (Suc (2 * m)))) * x ^ (2 * m)"
        unfolding diffs_def cdf_coeff_odd by simp
      also have "\<dots> = (- 1) ^ m * x ^ (2 * m) / 2 ^ m / fact m"
        by (simp del: of_nat_Suc)
      finally show ?thesis
        using l by (simp add: n)
    next
      case False
      then show ?thesis by (simp add: diffs_def cdf_coeff_even)
    qed
  qed
  ultimately show ?thesis by simp
qed

lemma DERIV_gauss_series: "DERIV gauss_series x :> exp (- (x\<^sup>2) / 2)"
proof -
  have "DERIV (\<lambda>x. \<Sum>n. cdf_coeff n * x ^ n) x :> (\<Sum>n. diffs cdf_coeff n * x ^ n)"
    by (rule termdiffs_strong_converges_everywhere) (rule cdf_coeff_summable)
  moreover have "(\<Sum>n. diffs cdf_coeff n * x ^ n) = exp (- (x\<^sup>2) / 2)"
    using diffs_cdf_coeff_sums by (rule sums_unique [symmetric])
  moreover have "gauss_series = (\<lambda>x. \<Sum>n. cdf_coeff n * x ^ n)"
    by (rule ext) (simp add: gauss_series_def)
  ultimately show ?thesis by simp
qed

lemma DERIV_std_normal_cdf: "DERIV std_normal_cdf x :> std_normal_pdf x"
proof -
  have "DERIV (\<lambda>x. gauss_series x / sqrt (2 * pi)) x :> exp (- (x\<^sup>2) / 2) / sqrt (2 * pi)"
    by (rule DERIV_cdivide) (rule DERIV_gauss_series)
  then have "DERIV (\<lambda>x. 1 / 2 + gauss_series x / sqrt (2 * pi)) x
               :> 0 + exp (- (x\<^sup>2) / 2) / sqrt (2 * pi)"
    by (rule DERIV_add [OF DERIV_const])
  moreover have "std_normal_cdf = (\<lambda>x. 1 / 2 + gauss_series x / sqrt (2 * pi))"
    by (rule ext) (simp add: std_normal_cdf_def)
  ultimately show ?thesis
    by (simp add: std_normal_pdf_def)
qed

lemma std_normal_pdf_pos: "0 < std_normal_pdf x"
  by (simp add: std_normal_pdf_def)

lemma std_normal_cdf_0: "std_normal_cdf 0 = 1 / 2"
proof -
  have "(\<lambda>n. cdf_coeff n * 0 ^ n) = (\<lambda>n. 0)"
    by (rule ext) (simp add: cdf_coeff_def power_0_left)
  then show ?thesis
    by (simp add: std_normal_cdf_def gauss_series_def)
qed

lemma std_normal_cdf_strict_mono: "a < b \<Longrightarrow> std_normal_cdf a < std_normal_cdf b"
  by (rule DERIV_pos_imp_increasing) (auto intro: DERIV_std_normal_cdf std_normal_pdf_pos)

lemma std_normal_cdf_upper:
  assumes "0 \<le> x"
  shows "std_normal_cdf x \<le> 1 / 2 + x / sqrt (2 * pi)"
proof -
  define g where "g t = t / sqrt (2 * pi) - std_normal_cdf t" for t
  have d: "DERIV g t :> 1 / sqrt (2 * pi) - std_normal_pdf t" for t
    unfolding g_def [abs_def]
    by (rule DERIV_diff [OF DERIV_cdivide [OF DERIV_ident] DERIV_std_normal_cdf])
  have nn: "0 \<le> 1 / sqrt (2 * pi) - std_normal_pdf t" for t
  proof -
    have "exp (- (t\<^sup>2) / 2) \<le> 1" by simp
    then have "exp (- (t\<^sup>2) / 2) / sqrt (2 * pi) \<le> 1 / sqrt (2 * pi)"
      by (rule divide_right_mono) simp
    then show ?thesis by (simp add: std_normal_pdf_def)
  qed
  have "g 0 \<le> g x"
    using assms by (rule DERIV_nonneg_imp_nondecreasing) (use d nn in blast)
  then show ?thesis
    by (simp add: g_def std_normal_cdf_0)
qed

subsection \<open>The volatility estimator\<close>

lemma map2_shift: "map2 f rest (butlast (p # rest)) = map (\<lambda>(a, b). f b a) (zip (p # rest) rest)"
  by (induction rest arbitrary: p) auto

lemma log_return_col:
  assumes "\<forall>p\<in>set ps. 0 < p" "ps \<noteq> []"
  shows "map np_log (map2 fdiv (map Fin ps) (shift1 (map Fin ps))) = NaN # map Fin (log_returns ps)"
proof -
  obtain p rest where ps: "ps = p # rest" using assms(2) by (cases ps) auto
  have pos: "0 < p" "\<forall>q\<in>set rest. 0 < q" using assms(1) ps by auto
  have "map2 fdiv (map Fin rest) (butlast (Fin p # map Fin rest))
        = map (\<lambda>(a, b). fdiv b a) (zip (Fin p # map Fin rest) (map Fin rest))"
    by (rule map2_shift)
  moreover have "map np_log (map (\<lambda>(a, b). fdiv b a) (zip (map Fin (p # rest)) (map Fin rest)))
        = map Fin (map (\<lambda>(prev, cur). ln (cur / prev)) (zip (p # rest) rest))"
    using pos
  proof (induction rest arbitrary: p)
    case Nil
    then show ?case by simp
  next
    case (Cons q rest)
    then show ?case by simp
  qed
  ultimately show ?thesis
    by (simp add: ps shift1_def log_returns_def)
qed

lemma fsum_Fin: "fsum (map Fin xs) = Fin (sum_list xs)"
  by (induction xs) auto

lemma filter_Fin: "filter (\<lambda>x. x \<noteq> NaN) (map Fin xs) = map Fin xs"
  by (induction xs) auto

lemma nanvar_Fin:
  assumes "2 \<le> length xs"
  shows "nanvar (NaN # map Fin xs) =
           Fin (sum_list (map (\<lambda>x. (x - mean xs)\<^sup>2) xs) / real (length xs - 1))"
proof -
  let ?n = "length xs"
  have n: "\<not> ?n \<le> 1" "real ?n \<noteq> 0" "real (?n - 1) \<noteq> 0" using assms by auto
  have avg: "fdiv (fsum (map Fin xs)) (Fin (real ?n)) = Fin (mean xs)"
    using n by (simp add: fsum_Fin mean_def)
  have sq: "map (\<lambda>y. fmul (fsub (Fin (mean xs)) y) (fsub (Fin (mean xs)) y)) (map Fin xs)
        = map Fin (map (\<lambda>x. (x - mean xs)\<^sup>2) xs)"
    by (simp add: fsub_def power2_eq_square algebra_simps)
  have "nanvar (NaN # map Fin xs) =
          fdiv (fsum (map (\<lambda>y. fmul (fsub (Fin (mean xs)) y) (fsub (Fin (mean xs)) y)) (map Fin xs)))
               (Fin (real (?n - 1)))"
    using n(1) unfolding nanvar_def Let_def by (simp add: filter_Fin avg del: map_map)
  also have "\<dots> = Fin (sum_list (map (\<lambda>x. (x - mean xs)\<^sup>2) xs) / real (?n - 1))"
    unfolding sq fsum_Fin using n(3) by simp
  finally show ?thesis .
qed

lemma std_Fin:
  assumes "2 \<le> length xs"
  shows "std (NaN # map Fin xs) = Fin (sample_std xs)"
proof -
  have nn: "0 \<le> sum_list (map (\<lambda>x. (x - mean xs)\<^sup>2) xs) / real (length xs - 1)"
    by (intro divide_nonneg_nonneg sum_list_nonneg) auto
  show ?thesis
    using nn by (simp add: std_def sample_std_def nanvar_Fin [OF assms])
qed

lemma length_log_returns: "length (log_returns ps) = length ps - 1"
  by (simp add: log_returns_def)

lemma calculate_volatility_positive:
  assumes "\<forall>p\<in>set ps. 0 < p" and "3 \<le> length ps"
  shows "\<exists>df'. calculate_volatility (price_frame ps) =
           Inr (NpFloat (Fin (annualized_volatility ps)), df')"
proof -
  have ne: "ps \<noteq> []" using assms(2) by auto
  have l: "2 \<le> length (log_returns ps)" using assms(2) by (simp add: length_log_returns)
  show ?thesis
    by (simp add: calculate_volatility_def getitem_def price_frame_def log_return_col [OF assms(1) ne]
        std_Fin [OF l] annualized_volatility_def Let_def del: map_map)
qed

lemma log_returns_const:
  assumes "\<forall>p\<in>set ps. p = c" and "c \<noteq> 0"
  shows "\<forall>x\<in>set (log_returns ps). x = 0"
proof -
  have "set (tl ps) \<subseteq> set ps" by (cases ps) auto
  then have "\<forall>(a, b)\<in>set (zip ps (tl ps)). a = c \<and> b = c"
    using assms(1) by (auto dest: set_zip_leftD set_zip_rightD)
  then show ?thesis
    using assms(2) by (auto simp: log_returns_def)
qed

lemma sample_std_zero:
  assumes "\<forall>x\<in>set xs. x = 0"
  shows "sample_std xs = 0"
proof -
  have s: "sum_list xs = 0" using assms by (induction xs) auto
  have z: "sum_list (map f xs) = 0" if "f 0 = 0" for f :: "real \<Rightarrow> real"
    using assms that by (induction xs) auto
  have "sum_list (map (\<lambda>x. (x - mean xs)\<^sup>2) xs) = 0"
    by (rule z) (simp add: mean_def s)
  then show ?thesis by (simp add: sample_std_def)
qed

text \<open>
  C7, as stated, fails on a series of two observations: the single return has no sample
  standard deviation (\<open>ddof=1\<close>), so a constant two-point series gives NaN, not 0.
\<close>

theorem calculate_volatility_two_points:
  "map_sum id fst (calculate_volatility (price_frame [5, 5])) = Inr (NpFloat NaN)"
  by (simp add: calculate_volatility_def getitem_def price_frame_def shift1_def std_def nanvar_def)

text \<open>
  C7 (amended).  For every series of positive prices with at least three observations,
  \<open>calculate_volatility\<close> returns the sample standard deviation of the daily log returns
  \<open>ln (P\<^sub>t / P\<^sub>t\<^sub>-\<^sub>1)\<close> over all consecutive pairs, multiplied by \<open>\<surd>252\<close>; in particular a
  constant series of at least three observations yields exactly 0.
\<close>

theorem calculate_volatility_sample_std:
  assumes "\<forall>p\<in>set ps. 0 < p" and "3 \<le> length ps"
  shows "map_sum id fst (calculate_volatility (price_frame ps)) =
           Inr (NpFloat (Fin (annualized_volatility ps)))
         \<and> ((\<forall>p\<in>set ps. p = hd ps) \<longrightarrow>
              map_sum id fst (calculate_volatility (price_frame ps)) = Inr (NpFloat (Fin 0)))"
proof -
  obtain df' where r: "calculate_volatility (price_frame ps) =
      Inr (NpFloat (Fin (annualized_volatility ps)), df')"
    using calculate_volatility_positive [OF assms] by blast
  have "annualized_volatility ps = 0" if c: "\<forall>p\<in>set ps. p = hd ps"
  proof -
    have "hd ps \<in> set ps" using assms(2) by (cases ps) auto
    then have "hd ps \<noteq> 0" using assms(1) by auto
    with c have "\<forall>x\<in>set (log_returns ps). x = 0"
      by (rule log_returns_const)
    then show ?thesis
      by (simp add: annualized_volatility_def sample_std_zero)
  qed
  then show ?thesis
    by (simp add: r)
qed

theorem calculate_volatility_constant_example:
  "list_all (\<lambda>p. 0 < p) [5, 5, 5 :: real] \<and> 3 \<le> length [5, 5, 5 :: real]
   \<and> list_all (\<lambda>p. p = hd [5, 5, 5]) [5, 5, 5 :: real]
   \<and> map_sum id fst (calculate_volatility (price_frame [5, 5, 5])) = Inr (NpFloat (Fin 0))"
proof -
  have h: "\<forall>p\<in>set [5, 5, 5 :: real]. 0 < p" "3 \<le> length [5, 5, 5 :: real]"
    by simp_all
  from calculate_volatility_sample_std [OF h, THEN conjunct2] show ?thesis
    by simp
qed

text \<open>
  C5, as stated, fails: on a series of one observation the estimator returns NaN as an
  ordinary value; it raises nothing.
\<close>

theorem calculate_volatility_one_point:
  "map_sum id fst (calculate_volatility (price_frame [5])) = Inr (NpFloat NaN)"
  by (simp add: calculate_volatility_def getitem_def price_frame_def shift1_def std_def nanvar_def)

text \<open>
  C5 (amended).  For every frame whose \<open>adj_close\<close> column has fewer than two
  observations, \<open>calculate_volatility\<close> raises no error and returns NaN.
\<close>

theorem calculate_volatility_short_nan:
  assumes "columns df ''adj_close'' = Some c" and "length c < 2"
  shows "map_sum id fst (calculate_volatility df) = Inr (NpFloat NaN)"
proof -
  consider "c = []" | x where "c = [x]"
    using assms(2) by (cases c; cases "tl c") auto
  then show ?thesis
  proof cases
    case 1
    then show ?thesis
      using assms(1)
      by (simp add: calculate_volatility_def getitem_def shift1_def std_def nanvar_def)
  next
    case 2
    have "fdiv x NaN = NaN" by (cases x) simp_all
    then show ?thesis
      using assms(1) 2
      by (simp add: calculate_volatility_def getitem_def shift1_def std_def nanvar_def)
  qed
qed

theorem calculate_volatility_empty_example:
  "columns (price_frame []) ''adj_close'' = Some [] \<and> length ([] :: fval list) < 2
   \<and> map_sum id fst (calculate_volatility (price_frame [])) = Inr (NpFloat NaN)"
proof -
  have h: "columns (price_frame []) ''adj_close'' = Some []" "length ([] :: fval list) < 2"
    by (simp_all add: price_frame_def)
  from calculate_volatility_short_nan [OF h] h show ?thesis
    by simp
qed





subsection \<open>The option pricer\<close>

lemma val_mk [simp]: "val (mk k x) = x"
  by (simp add: mk_def)

lemma is_np_mk [simp]: "is_np (mk k x) = k"
  by (simp add: mk_def)

lemma mk_True [simp]: "mk True x = NpFloat x"
  by (simp add: mk_def)

lemma mk_False [simp]: "mk False x = PyFloat x"
  by (simp add: mk_def)

lemma black_scholes_call_formula:
  assumes "0 < S" "0 < K" "0 < T" "0 < sigma"
  shows "black_scholes_call (mk a (Fin S)) (mk b (Fin K)) (mk c (Fin T)) (mk d (Fin r))
           (mk e (Fin sigma)) =
         Inr (NpFloat (Fin (price_formula S K T r sigma)),
              NpFloat (Fin (std_normal_cdf (d1_formula S K T r sigma))),
              NpFloat (Fin (S * std_normal_pdf (d1_formula S K T r sigma) * sqrt T)))"
proof -
  have den: "sigma * sqrt T \<noteq> 0" using assms by simp
  have q: "0 < S / K" using assms by simp
  show ?thesis
    using den q assms
    by (simp add: black_scholes_call_def py_truediv_def py_add_def py_mul_def py_sq_def
        py_sub_def py_neg_def fsub_def Let_def price_formula_def d1_formula_def d2_formula_def
        power2_eq_square)
qed


lemma at_the_money_d1:
  assumes "0 < T"
  shows "d1_formula 100 100 T (5 / 100) (20 / 100) = 7 / 20 * sqrt T"
proof -
  have "T / sqrt T = sqrt T"
    using assms by (intro real_div_sqrt) simp
  moreover have "(7 / 100 * T) / (20 / 100 * sqrt T) = 7 / 20 * (T / sqrt T)"
    by simp
  ultimately have "(7 / 100 * T) / (20 / 100 * sqrt T) = 7 / 20 * sqrt T"
    by simp
  then show ?thesis
    by (simp add: d1_formula_def power2_eq_square)
qed

lemma at_the_money_d2:
  assumes "0 < T"
  shows "d2_formula 100 100 T (5 / 100) (20 / 100) = 3 / 20 * sqrt T"
  unfolding d2_formula_def at_the_money_d1 [OF assms] by simp

text \<open>
  C8.  For \<open>S = 100\<close>, \<open>K = S\<close>, \<open>T = 30/365\<close>, \<open>r = 0.05\<close> and \<open>sigma = 0.20\<close>, whatever the
  dynamic types of the arguments, the pricer returns a call price strictly between 0 and
  100 and a delta strictly between 0.5 and 1.
\<close>

theorem black_scholes_call_at_the_money:
  "\<exists>p d v. black_scholes_call (mk a (Fin 100)) (mk b (Fin 100)) (mk c (Fin (30 / 365)))
              (mk e (Fin (5 / 100))) (mk f (Fin (20 / 100)))
            = Inr (NpFloat (Fin p), NpFloat (Fin d), v)
          \<and> 0 < p \<and> p < 100 \<and> 1 / 2 < d \<and> d < 1"
proof -
  define T :: real where "T = 30 / 365"
  define d1 where "d1 = d1_formula 100 100 T (5 / 100) (20 / 100)"
  define d2 where "d2 = d2_formula 100 100 T (5 / 100) (20 / 100)"
  define p where "p = price_formula 100 100 T (5 / 100) (20 / 100)"
  have sT: "0 < sqrt T" "sqrt T < 1"
    by (simp_all add: T_def)
  have T: "0 < T" by (simp add: T_def)
  have d1: "d1 = 7 / 20 * sqrt T" and d2: "d2 = 3 / 20 * sqrt T"
    unfolding d1_def d2_def by (rule at_the_money_d1 [OF T], rule at_the_money_d2 [OF T])
  have order: "0 < d2" "d2 < d1" "d1 < 7 / 20"
    using sT by (simp_all add: d1 d2)
  have lo2: "1 / 2 < std_normal_cdf d2"
    using std_normal_cdf_strict_mono [OF order(1)] by (simp add: std_normal_cdf_0)
  have lt: "std_normal_cdf d2 < std_normal_cdf d1"
    using order(2) by (rule std_normal_cdf_strict_mono)
  have "1 < sqrt (2 * pi)"
    using pi_ge_two by (intro real_less_rsqrt) simp
  then have "d1 / sqrt (2 * pi) < d1 / 1"
    using order by (intro divide_strict_left_mono) auto
  moreover have "std_normal_cdf d1 \<le> 1 / 2 + d1 / sqrt (2 * pi)"
    using order by (intro std_normal_cdf_upper) auto
  ultimately have hi1: "std_normal_cdf d1 < 1"
    using order(3) by simp
  have e: "0 < exp (- (5 / 100) * T)" "exp (- (5 / 100) * T) < 1"
    by (simp_all add: T_def)
  have "exp (- (5 / 100) * T) * std_normal_cdf d2 < 1 * std_normal_cdf d2"
    using e(2) lo2 by (intro mult_strict_right_mono) auto
  then have disc: "exp (- (5 / 100) * T) * std_normal_cdf d2 < std_normal_cdf d1"
    using lt by simp
  have pos: "0 < exp (- (5 / 100) * T) * std_normal_cdf d2"
    using e(1) lo2 by (intro mult_pos_pos) auto
  have pdef: "p = 100 * std_normal_cdf d1 - 100 * exp (- (5 / 100) * T) * std_normal_cdf d2"
    by (simp add: p_def price_formula_def d1_def d2_def)
  have p: "0 < p" "p < 100"
    using disc pos hi1 by (simp_all add: pdef)
  have d: "1 / 2 < std_normal_cdf d1"
    using lo2 lt by simp
  have "black_scholes_call (mk a (Fin 100)) (mk b (Fin 100)) (mk c (Fin T))
          (mk e (Fin (5 / 100))) (mk f (Fin (20 / 100)))
        = Inr (NpFloat (Fin p), NpFloat (Fin (std_normal_cdf d1)),
               NpFloat (Fin (100 * std_normal_pdf d1 * sqrt T)))"
    unfolding p_def d1_def
    by (rule black_scholes_call_formula) (simp_all add: T_def)
  with p d hi1 show ?thesis
    unfolding T_def by blast
qed

text \<open>
  C1, as stated, fails.  With a numpy \<open>sigma = 0\<close> (what \<open>main\<close> passes), \<open>S = K = 100\<close>,
  \<open>T = 30/365\<close> and \<open>r = 0\<close> the unguarded division is \<open>0 / 0\<close> and the pricer returns NaN
  for the price, the delta and the vega.
\<close>

theorem black_scholes_call_zero_sigma_nan:
  "black_scholes_call (NpFloat (Fin 100)) (NpFloat (Fin 100)) (PyFloat (Fin (30 / 365)))
     (PyFloat (Fin 0)) (NpFloat (Fin 0))
   = Inr (NpFloat NaN, NpFloat NaN, NpFloat NaN)"
  by (simp add: black_scholes_call_def py_truediv_def py_add_def py_mul_def py_sq_def
      py_sub_def py_neg_def fsub_def Let_def)

text \<open>
  C1 (amended).  For every spot \<open>S > 0\<close>, strike \<open>K > 0\<close> and \<open>T \<ge> 0\<close>, the pricer called with
  \<open>sigma = 0\<close> divides by \<open>sigma * sqrt(T) = 0\<close> unguarded.  Between Python floats the
  division raises ZeroDivisionError.  With a numpy \<open>sigma\<close> nothing is raised: the result
  is NaN three times when \<open>ln (S/K) + r T = 0\<close>, else the price \<open>S - K e\<^sup>-\<^sup>r\<^sup>T\<close>, delta 1 and
  vega 0 when that sum is positive, and price 0, delta 0 and vega 0 when it is negative.
\<close>

theorem black_scholes_call_zero_sigma:
  assumes "0 < S" and "0 < K" and "0 \<le> T"
  shows "black_scholes_call (PyFloat (Fin S)) (PyFloat (Fin K)) (PyFloat (Fin T))
           (PyFloat (Fin r)) (PyFloat (Fin 0)) = Inl ZeroDivisionError
       \<and> black_scholes_call (mk a (Fin S)) (mk b (Fin K)) (mk c (Fin T)) (mk d (Fin r))
           (NpFloat (Fin 0)) =
         Inr (if ln (S / K) + r * T = 0 then (NpFloat NaN, NpFloat NaN, NpFloat NaN)
              else if 0 < ln (S / K) + r * T
                then (NpFloat (Fin (S - K * exp (- r * T))), NpFloat (Fin 1), NpFloat (Fin 0))
                else (NpFloat (Fin 0), NpFloat (Fin 0), NpFloat (Fin 0)))"
proof -
  have q: "0 < S / K" "K \<noteq> 0" using assms by simp_all
  have py: "black_scholes_call (PyFloat (Fin S)) (PyFloat (Fin K)) (PyFloat (Fin T))
           (PyFloat (Fin r)) (PyFloat (Fin 0)) = Inl ZeroDivisionError"
    using q assms(3)
    by (simp add: black_scholes_call_def py_truediv_def py_add_def py_mul_def py_sq_def)
  have np: "black_scholes_call (mk a (Fin S)) (mk b (Fin K)) (mk c (Fin T)) (mk d (Fin r))
           (NpFloat (Fin 0)) =
         Inr (if ln (S / K) + r * T = 0 then (NpFloat NaN, NpFloat NaN, NpFloat NaN)
              else if 0 < ln (S / K) + r * T
                then (NpFloat (Fin (S - K * exp (- r * T))), NpFloat (Fin 1), NpFloat (Fin 0))
                else (NpFloat (Fin 0), NpFloat (Fin 0), NpFloat (Fin 0)))"
    using q assms(3)
    by (simp add: black_scholes_call_def py_truediv_def py_add_def py_mul_def py_sq_def
      py_sub_def py_neg_def fsub_def Let_def inf_sgn_def)
  from py np show ?thesis by (rule conjI)
qed

theorem black_scholes_call_zero_sigma_example:
  "black_scholes_call (PyFloat (Fin 100)) (PyFloat (Fin 100)) (PyFloat (Fin (30 / 365)))
     (PyFloat (Fin (5 / 100))) (PyFloat (Fin 0)) = Inl ZeroDivisionError
   \<and> black_scholes_call (NpFloat (Fin 100)) (NpFloat (Fin 100)) (PyFloat (Fin (30 / 365)))
     (PyFloat (Fin (5 / 100))) (NpFloat (Fin 0))
     = Inr (NpFloat (Fin (100 - 100 * exp (- (5 / 100) * (30 / 365)))),
            NpFloat (Fin 1), NpFloat (Fin 0))"
proof -
  have h: "(0::real) < 100" "(0::real) \<le> 30 / 365" by simp_all
  from black_scholes_call_zero_sigma [OF h(1) h(1) h(2), of "5 / 100" True True False False]
  show ?thesis by simp
qed

subsection \<open>The screening run\<close>

lemma fdiv_self: "fdiv s s = Fin 1 \<or> fdiv s s = NaN"
  by (cases s) auto

lemma black_scholes_call_numpy_total:
  assumes "0 \<le> t"
  shows "\<exists>x y z. black_scholes_call (NpFloat s) (NpFloat s) (mk k (Fin t)) r (NpFloat v)
           = Inr (NpFloat x, NpFloat y, NpFloat z)"
proof -
  have q: "py_truediv (NpFloat s) (NpFloat s) = Inr (NpFloat (fdiv s s))"
    by (simp add: py_truediv_def)
  have "\<exists>w. math_log (NpFloat (fdiv s s)) = Inr (PyFloat w)"
    using fdiv_self [of s] by auto
  then obtain w where l: "math_log (NpFloat (fdiv s s)) = Inr (PyFloat w)" ..
  have sq: "math_sqrt (mk k (Fin t)) = Inr (PyFloat (Fin (sqrt t)))"
    using assms by simp
  show ?thesis
    unfolding black_scholes_call_def q and_then_simps l sq
    by (simp add: py_truediv_def py_add_def py_mul_def py_sub_def Let_def
        del: math_log.simps math_sqrt.simps)
qed

lemma affordable_contracts_total:
  "\<exists>n. affordable_contracts (mk k (Fin c)) (NpFloat x) = Inr n"
proof (cases x)
  case (Fin p)
  show ?thesis
    using affordable_contracts_fin [of k c True p] by (simp add: Fin)
next
  case PInf
  then show ?thesis
    by (simp add: affordable_contracts_def py_gt_def py_floordiv_def py_mul_def)
next
  case NInf
  then show ?thesis
    by (simp add: affordable_contracts_def py_gt_def)
next
  case NaN
  then show ?thesis
    by (simp add: affordable_contracts_def py_gt_def)
qed

lemma calculate_volatility_numpy:
  assumes "columns df ''adj_close'' = Some c"
  shows "\<exists>v df'. calculate_volatility df = Inr (NpFloat v, df')"
  using assms by (simp add: calculate_volatility_def getitem_def Let_def)

lemma process_ticker_skips:
  assumes "\<not> has_history fetched"
  shows "process_ticker T r liq ticker fetched = Inr None"
  using assms by (simp add: process_ticker_def has_history_def split: option.splits)

lemma process_ticker_row:
  assumes "has_history fetched" and "fetched_ok fetched" and "0 \<le> t"
  shows "\<exists>row. process_ticker (mk k (Fin t)) r (mk k' (Fin c)) ticker fetched = Inr (Some row)
           \<and> Ticker row = ticker"
proof -
  from assms(1) obtain df where f: "fetched = Some df" and h: "30 \<le> len df"
    by (auto simp: has_history_def split: option.splits)
  from assms(2) f obtain col where col: "columns df ''adj_close'' = Some col"
    and n: "length col = len df"
    by (auto simp: fetched_ok_def price_data_def split: option.splits)
  have ne: "col \<noteq> []" using h n by auto
  obtain v df' where cv: "calculate_volatility df = Inr (NpFloat v, df')"
    using calculate_volatility_numpy [OF col] by blast
  obtain x y z where bs: "black_scholes_call (NpFloat (last col)) (NpFloat (last col))
      (mk k (Fin t)) r (NpFloat v) = Inr (NpFloat x, NpFloat y, NpFloat z)"
    using black_scholes_call_numpy_total [OF assms(3)] by blast
  obtain a where a: "affordable_contracts (mk k' (Fin c)) (NpFloat x) = Inr a"
    using affordable_contracts_total by blast
  show ?thesis
    using h ne
    by (simp add: process_ticker_def f getitem_def col iloc_last_def cv bs a)
qed

lemma frame_of_daily: "frame_of (daily ps) = price_frame ps"
  by (simp add: frame_of_def daily_def price_frame_def)

lemma fetch_price_data_daily:
  "fetch_price_data (Inr \<lparr>status_code = 200, content = Json (Inr (daily ps))\<rparr>)
     = Inr (Some (price_frame ps))"
  by (simp add: fetch_price_data_def frame_of_daily)

lemma fetch_price_data_ok:
  assumes "fetch_price_data got = Inr fetched"
  shows "fetched_ok fetched"
  using assms
  by (auto simp: fetch_price_data_def fetched_ok_def price_data_def frame_of_def len_def
      split: sum.splits if_splits body.splits)

lemma process_ticker_total:
  assumes "fetched_ok fetched" and "0 \<le> t"
  shows "\<exists>row. process_ticker (mk k (Fin t)) r (mk k' (Fin c)) ticker fetched = Inr row
           \<and> map Ticker (case row of None \<Rightarrow> [] | Some x \<Rightarrow> [x])
               = (if has_history fetched then [ticker] else [])"
proof (cases "has_history fetched")
  case True
  from process_ticker_row [OF True assms] obtain row where
    "process_ticker (mk k (Fin t)) r (mk k' (Fin c)) ticker fetched = Inr (Some row)"
    "Ticker row = ticker"
    by blast
  with True show ?thesis by simp
next
  case False
  with process_ticker_skips [OF False] show ?thesis by simp
qed

lemma main_loop_rows:
  assumes "\<forall>ticker\<in>set tickers. \<not> isl (fetch_price_data (get ticker))" and "0 \<le> t"
  shows "\<exists>rows shown. main_loop get (mk k (Fin t)) r (mk k' (Fin c)) n i tickers acc prog
             = Inr (acc @ rows, prog @ shown)
           \<and> map Ticker rows
               = filter (\<lambda>ticker. gives_history (fetch_price_data (get ticker))) tickers
           \<and> length shown = length tickers"
  using assms(1)
proof (induction tickers arbitrary: i acc prog)
  case Nil
  then show ?case by simp
next
  case (Cons ticker rest)
  from Cons.prems obtain fetched where f: "fetch_price_data (get ticker) = Inr fetched"
    by (cases "fetch_price_data (get ticker)") auto
  have rest: "\<forall>u\<in>set rest. \<not> isl (fetch_price_data (get u))"
    using Cons.prems by simp
  obtain row where row: "process_ticker (mk k (Fin t)) r (mk k' (Fin c)) ticker fetched = Inr row"
    and tk: "map Ticker (case row of None \<Rightarrow> [] | Some x \<Rightarrow> [x])
               = (if has_history fetched then [ticker] else [])"
    using process_ticker_total [OF fetch_price_data_ok [OF f] assms(2)] by blast
  define new where "new = (case row of None \<Rightarrow> [] | Some x \<Rightarrow> [x])"
  obtain rows shown where
    "main_loop get (mk k (Fin t)) r (mk k' (Fin c)) n (Suc i) rest (acc @ new)
         (prog @ [real (i + 1) / real n]) = Inr ((acc @ new) @ rows,
         (prog @ [real (i + 1) / real n]) @ shown)"
    "map Ticker rows = filter (\<lambda>u. gives_history (fetch_price_data (get u))) rest"
    "length shown = length rest"
    using Cons.IH [OF rest] by blast
  then have "main_loop get (mk k (Fin t)) r (mk k' (Fin c)) n i (ticker # rest) acc prog
        = Inr (acc @ (new @ rows), prog @ (real (i + 1) / real n # shown))
      \<and> map Ticker (new @ rows)
          = filter (\<lambda>u. gives_history (fetch_price_data (get u))) (ticker # rest)
      \<and> length (real (i + 1) / real n # shown) = length (ticker # rest)"
    using tk by (simp add: f row new_def gives_history_def)
  then show ?case by blast
qed

lemma main_loop_aborts:
  assumes "\<forall>ticker\<in>set before. \<not> isl (fetch_price_data (get ticker))"
    and "fetch_price_data (get ticker) = Inl e" and "0 \<le> t"
  shows "main_loop get (mk k (Fin t)) r (mk k' (Fin c)) n i (before @ ticker # after) acc prog
           = Inl e"
  using assms(1)
proof (induction before arbitrary: i acc prog)
  case Nil
  then show ?case by (simp add: assms(2))
next
  case (Cons u rest)
  from Cons.prems obtain fetched where f: "fetch_price_data (get u) = Inr fetched"
    by (cases "fetch_price_data (get u)") auto
  have rest: "\<forall>v\<in>set rest. \<not> isl (fetch_price_data (get v))"
    using Cons.prems by simp
  obtain row where row: "process_ticker (mk k (Fin t)) r (mk k' (Fin c)) u fetched = Inr row"
    using process_ticker_total [OF fetch_price_data_ok [OF f] assms(3)] by blast
  show ?case
    using Cons.IH [OF rest] by (simp add: f row)
qed

lemma main_with_rate:
  assumes "fetch_risk_free_rate rate_response [] = (Inr r, w)"
    and "\<forall>ticker\<in>set (take n tickers). \<not> isl (fetch_price_data (get ticker))"
  shows "\<exists>rows shown. main tickers n (mk k (Fin c)) rate_response get
             = Inr \<lparr>final_results = rows, progress_shown = shown, warnings_shown = w\<rparr>
           \<and> main_loop get (PyFloat (Fin (30 / 365))) r (mk k (Fin c)) n 0 (take n tickers) [] []
             = Inr (rows, shown)
           \<and> map Ticker rows
               = filter (\<lambda>ticker. gives_history (fetch_price_data (get ticker))) (take n tickers)
           \<and> length shown = min n (length tickers)"
proof -
  have t: "(0::real) \<le> 30 / 365" by simp
  obtain rows shown where
    "main_loop get (mk False (Fin (30 / 365))) r (mk k (Fin c)) n 0 (take n tickers) [] []
       = Inr ([] @ rows, [] @ shown)"
    "map Ticker rows
       = filter (\<lambda>ticker. gives_history (fetch_price_data (get ticker))) (take n tickers)"
    "length shown = length (take n tickers)"
    using main_loop_rows [OF assms(2) t] by blast
  then show ?thesis
    by (simp add: main_def assms(1) min.commute)
qed

lemma main_aborts:
  assumes "fetch_risk_free_rate rate_response [] = (Inr r, w)"
    and "take n tickers = before @ ticker # after"
    and "\<forall>u\<in>set before. \<not> isl (fetch_price_data (get u))"
    and "fetch_price_data (get ticker) = Inl e"
  shows "main tickers n (mk k (Fin c)) rate_response get = Inl e"
proof -
  have t: "(0::real) \<le> 30 / 365" by simp
  have "main_loop get (mk False (Fin (30 / 365))) r (mk k (Fin c)) n 0 (before @ ticker # after)
      [] [] = Inl e"
    using assms(3,4) t by (rule main_loop_aborts)
  then show ?thesis
    by (simp add: main_def assms(1,2))
qed


lemma fallback_rate:
  "fetch_risk_free_rate (Inr \<lparr>status_code = 503, content = NotJson\<rparr>) []
      = (Inr (PyFloat (Fin (5 / 100))), [''Failed to fetch risk-free rate from FRED API.''])"
  by (simp add: fetch_risk_free_rate_def)

lemma has_history_replicate: "has_history (Some (price_frame (replicate 30 p)))"
  by (simp add: has_history_def len_def price_frame_def)

text \<open>
  C6, as stated, fails.  A run over three symbols in which the request for the second
  raises: the exception leaves \<open>fetch_price_data\<close> and ends the run, and the row of the
  first symbol is lost with it.
\<close>

theorem main_aborts_on_request_exception:
  "main [''A'', ''B'', ''C''] 3 (PyFloat (Fin 1000))
     (Inr \<lparr>status_code = 503, content = NotJson\<rparr>)
     (replies [(''A'', Inr \<lparr>status_code = 200, content = Json (Inr (daily (replicate 30 5)))\<rparr>),
               (''B'', Inl RequestException),
               (''C'', Inr \<lparr>status_code = 200, content = Json (Inr (daily (replicate 30 5)))\<rparr>)])
   = Inl RequestException"
proof -
  let ?get = "replies [(''A'', Inr \<lparr>status_code = 200, content = Json (Inr (daily (replicate 30 5)))\<rparr>),
               (''B'', Inl RequestException),
               (''C'', Inr \<lparr>status_code = 200, content = Json (Inr (daily (replicate 30 5)))\<rparr>)]"
  have tk: "take 3 [''A'', ''B'', ''C''] = [''A''] @ ''B'' # [''C'']" by simp
  have a: "\<forall>u\<in>set [''A'']. \<not> isl (fetch_price_data (?get u))"
    by (simp add: replies_def fetch_price_data_def)
  have b: "fetch_price_data (?get ''B'') = Inl RequestException"
    by (simp add: replies_def fetch_price_data_def)
  from main_aborts [OF fallback_rate tk a b, of False 1000] show ?thesis
    unfolding mk_False .
qed

text \<open>
  C6 (amended).  Whatever the universe, the count and the outcome of the request for
  each symbol, once the rate is fetched: if \<open>fetch_price_data\<close> returns (None or a frame)
  for each of the first \<open>selected_count\<close> symbols of the universe (all of it when it is
  shorter), the run ends without an exception, the rows of its result are, in order,
  exactly those of these symbols whose frame has at least 30 observations, so an
  unavailable or short series contributes no row, and progress is reported once for each
  of these symbols.  If instead \<open>fetch_price_data\<close> raises for one of them, the first
  such exception ends the run.
\<close>

theorem main_skips_or_aborts:
  assumes "fetch_risk_free_rate rate_response [] = (Inr r, w)"
  shows "((\<forall>ticker\<in>set (take n tickers). \<not> isl (fetch_price_data (get ticker))) \<longrightarrow>
            (\<exists>run. main tickers n (mk k (Fin c)) rate_response get = Inr run
               \<and> map Ticker (final_results run)
                   = filter (\<lambda>ticker. gives_history (fetch_price_data (get ticker)))
                       (take n tickers)
               \<and> length (progress_shown run) = min n (length tickers)))
       \<and> (\<forall>before ticker after e.
             take n tickers = before @ ticker # after
             \<longrightarrow> (\<forall>u\<in>set before. \<not> isl (fetch_price_data (get u)))
             \<longrightarrow> fetch_price_data (get ticker) = Inl e
             \<longrightarrow> main tickers n (mk k (Fin c)) rate_response get = Inl e)"
proof (intro conjI impI allI)
  assume ok: "\<forall>ticker\<in>set (take n tickers). \<not> isl (fetch_price_data (get ticker))"
  obtain rows shown where
    "main tickers n (mk k (Fin c)) rate_response get
       = Inr \<lparr>final_results = rows, progress_shown = shown, warnings_shown = w\<rparr>"
    "map Ticker rows
       = filter (\<lambda>ticker. gives_history (fetch_price_data (get ticker))) (take n tickers)"
    "length shown = min n (length tickers)"
    using main_with_rate [OF assms ok] by blast
  then show "\<exists>run. main tickers n (mk k (Fin c)) rate_response get = Inr run
               \<and> map Ticker (final_results run)
                   = filter (\<lambda>ticker. gives_history (fetch_price_data (get ticker)))
                       (take n tickers)
               \<and> length (progress_shown run) = min n (length tickers)"
    by simp
next
  fix before ticker after e
  assume "take n tickers = before @ ticker # after"
    and "\<forall>u\<in>set before. \<not> isl (fetch_price_data (get u))"
    and "fetch_price_data (get ticker) = Inl e"
  with assms show "main tickers n (mk k (Fin c)) rate_response get = Inl e"
    by (rule main_aborts)
qed

theorem main_skips_or_aborts_example:
  "(\<exists>run. main [''A'', ''B'', ''C'', ''D''] 3 (PyFloat (Fin 1000))
            (Inr \<lparr>status_code = 200, content = Json (Some [Some (Fin 5)])\<rparr>)
            (replies [(''A'', Inr \<lparr>status_code = 200, content = Json (Inr (daily (replicate 30 5)))\<rparr>),
                      (''C'', Inr \<lparr>status_code = 200, content = Json (Inr (daily [5, 6]))\<rparr>),
                      (''D'', Inr \<lparr>status_code = 200, content = Json (Inr (daily (replicate 30 5)))\<rparr>)]) = Inr run
         \<and> map Ticker (final_results run) = [''A'']
         \<and> length (progress_shown run) = 3)
   \<and> main [''A'', ''B''] 2 (PyFloat (Fin 1000))
        (Inr \<lparr>status_code = 200, content = Json (Some [Some (Fin 5)])\<rparr>)
        (replies [(''A'', Inr \<lparr>status_code = 200, content = Json (Inr (daily (replicate 30 5)))\<rparr>),
                  (''B'', Inr \<lparr>status_code = 200, content = NotJson\<rparr>)])
      = Inl JSONDecodeError"
proof -
  let ?get = "replies [(''A'', Inr \<lparr>status_code = 200, content = Json (Inr (daily (replicate 30 5)))\<rparr>),
                      (''C'', Inr \<lparr>status_code = 200, content = Json (Inr (daily [5, 6]))\<rparr>),
                      (''D'', Inr \<lparr>status_code = 200, content = Json (Inr (daily (replicate 30 5)))\<rparr>)]"
  let ?bad = "replies [(''A'', Inr \<lparr>status_code = 200, content = Json (Inr (daily (replicate 30 5)))\<rparr>),
                  (''B'', Inr \<lparr>status_code = 200, content = NotJson\<rparr>)]"
  have r: "fetch_risk_free_rate (Inr \<lparr>status_code = 200, content = Json (Some [Some (Fin 5)])\<rparr>) []
      = (Inr (PyFloat (Fin (5 / 100))), [])"
    by (simp add: fetch_risk_free_rate_def py_truediv_def)
  have fa: "fetch_price_data (?get ''A'') = Inr (Some (price_frame (replicate 30 5)))"
    and fb: "fetch_price_data (?get ''B'') = Inr None"
    and fc: "fetch_price_data (?get ''C'') = Inr (Some (price_frame [5, 6]))"
    by (simp_all add: replies_def fetch_price_data_daily) (simp add: fetch_price_data_def)
  have ok: "\<forall>ticker\<in>set (take 3 [''A'', ''B'', ''C'', ''D'']). \<not> isl (fetch_price_data (?get ticker))"
    by (simp add: fa fb fc)
  have f: "filter (\<lambda>ticker. gives_history (fetch_price_data (?get ticker)))
      (take 3 [''A'', ''B'', ''C'', ''D'']) = [''A'']"
    by (simp add: fa fb fc gives_history_def has_history_replicate)
      (simp add: has_history_def len_def price_frame_def)
  have n: "min 3 (length [''A'', ''B'', ''C'', ''D'']) = 3" by simp
  have 1: "\<exists>run. main [''A'', ''B'', ''C'', ''D''] 3 (PyFloat (Fin 1000))
            (Inr \<lparr>status_code = 200, content = Json (Some [Some (Fin 5)])\<rparr>) ?get = Inr run
         \<and> map Ticker (final_results run) = [''A'']
         \<and> length (progress_shown run) = 3"
    using main_skips_or_aborts [OF r, of 3 "[''A'', ''B'', ''C'', ''D'']" ?get False 1000,
        THEN conjunct1, THEN mp, OF ok]
    unfolding f n mk_False .
  have tk: "take 2 [''A'', ''B''] = [''A''] @ ''B'' # []" by simp
  have a: "\<forall>u\<in>set [''A'']. \<not> isl (fetch_price_data (?bad u))"
    by (simp add: replies_def fetch_price_data_def)
  have b: "fetch_price_data (?bad ''B'') = Inl JSONDecodeError"
    by (simp add: replies_def fetch_price_data_def)
  have 2: "main [''A'', ''B''] 2 (PyFloat (Fin 1000))
        (Inr \<lparr>status_code = 200, content = Json (Some [Some (Fin 5)])\<rparr>) ?bad
      = Inl JSONDecodeError"
    using main_skips_or_aborts [OF r, of 2 "[''A'', ''B'']" ?bad False 1000,
        THEN conjunct2, THEN spec, THEN spec, THEN spec, THEN spec,
        THEN mp, THEN mp, THEN mp, OF tk a b]
    unfolding mk_False .
  from 1 2 show ?thesis by (rule conjI)
qed



subsection \<open>The leaderboard\<close>

lemma key_before_total: "key_before a b \<or> key_before b a"
  by (cases a; cases b) (auto simp: key_before_def)

lemma key_before_trans: "key_before a b \<Longrightarrow> key_before b c \<Longrightarrow> key_before a c"
  by (cases a; cases b; cases c) (auto simp: key_before_def)

lemma key_before_antisym: "key_before a b \<Longrightarrow> key_before b a \<Longrightarrow> a = b"
  by (cases a; cases b) (auto simp: key_before_def)

lemma set_insert_desc: "set (insert_desc r xs) = insert r (set xs)"
  by (induction xs) auto

lemma mset_insert_desc: "mset (insert_desc r xs) = add_mset r (mset xs)"
  by (induction xs) auto

lemma sorted_insert_desc:
  "sorted_wrt row_before xs \<Longrightarrow> sorted_wrt row_before (insert_desc r xs)"
proof (induction xs)
  case Nil
  then show ?case by simp
next
  case (Cons x xs)
  show ?case
  proof (cases "row_before r x")
    case True
    then have "\<forall>y\<in>set xs. row_before r y"
      using Cons.prems by (auto intro: key_before_trans)
    with True Cons.prems show ?thesis by simp
  next
    case False
    then have "row_before x r"
      using key_before_total by blast
    with False Cons show ?thesis
      by (auto simp: set_insert_desc)
  qed
qed

lemma mset_stable_sort_desc: "mset (stable_sort_desc rows) = mset rows"
  unfolding stable_sort_desc_def by (induction rows) (simp_all add: mset_insert_desc)

lemma sorted_stable_sort_desc: "sorted_wrt row_before (stable_sort_desc rows)"
  unfolding stable_sort_desc_def by (induction rows) (simp_all add: sorted_insert_desc)

lemma sort_values_desc_stable: "sort_values_desc rows (stable_sort_desc rows)"
  by (simp add: sort_values_desc_def mset_stable_sort_desc sorted_stable_sort_desc)

lemma top_25_leaderboard: "top_25 rows (leaderboard rows)"
proof (cases "rows = []")
  case True
  then show ?thesis
    by (simp add: leaderboard_def stable_sort_desc_def top_25.no_results)
next
  case False
  then show ?thesis
    unfolding leaderboard_def by (intro top_25.table sort_values_desc_stable)
qed

lemma top_25_sorted_prefix:
  assumes "top_25 rows out"
  obtains s where "sort_values_desc rows s" and "out = take 25 s"
  using assms
proof cases
  case no_results
  have "sort_values_desc [] []" by (simp add: sort_values_desc_def)
  with no_results that show ?thesis by simp
next
  case (table s)
  with that show ?thesis by simp
qed

lemma sorted_wrt_unique:
  assumes "sorted_wrt row_before xs" and "sorted_wrt row_before ys"
    and "mset xs = mset ys" and "distinct (map Call_Price xs)"
  shows "xs = ys"
  using assms
proof (induction xs arbitrary: ys)
  case Nil
  then show ?case by simp
next
  case (Cons x xs)
  then obtain y ys' where ys: "ys = y # ys'"
    by (cases ys) auto
  have inj: "a = b" if "a \<in> set (x # xs)" "b \<in> set (x # xs)" "Call_Price a = Call_Price b" for a b
    using Cons.prems(4) that by (meson distinct_map inj_onD)
  have sx: "set (x # xs) = set (y # ys')"
    using Cons.prems(3) ys by (metis mset_eq_setD)
  have xy: "row_before x y"
  proof (cases "x = y")
    case True
    then show ?thesis using key_before_total by blast
  next
    case False
    then have "y \<in> set xs" using sx by auto
    then show ?thesis using Cons.prems(1) by simp
  qed
  have yx: "row_before y x"
  proof (cases "x = y")
    case True
    then show ?thesis using key_before_total by blast
  next
    case False
    then have "x \<in> set ys'" using sx by auto
    then show ?thesis using Cons.prems(2) ys by simp
  qed
  have "Call_Price x = Call_Price y"
    using xy yx by (rule key_before_antisym)
  then have e: "x = y"
    using inj sx by auto
  then have "mset xs = mset ys'"
    using Cons.prems(3) ys by simp
  then have "xs = ys'"
    using Cons.IH [of ys'] Cons.prems ys by simp
  with e ys show ?case by simp
qed

text \<open>
  C3, as stated, fails on ties.  For two rows of equal call price entered as A, B the
  sort may return B before A, where a stable sort (the leaderboard of the specification)
  keeps A before B.
\<close>

theorem top_25_not_stable:
  "top_25 [example_row ''A'' 2, example_row ''B'' 2] [example_row ''B'' 2, example_row ''A'' 2]
   \<and> leaderboard [example_row ''A'' 2, example_row ''B'' 2]
       = [example_row ''A'' 2, example_row ''B'' 2]
   \<and> example_row ''A'' 2 \<noteq> example_row ''B'' 2"
proof -
  have "sort_values_desc [example_row ''A'' 2, example_row ''B'' 2]
          [example_row ''B'' 2, example_row ''A'' 2]"
    by (simp add: sort_values_desc_def key_before_def example_row_def)
  then have "top_25 [example_row ''A'' 2, example_row ''B'' 2]
          (take 25 [example_row ''B'' 2, example_row ''A'' 2])"
    by (intro top_25.table) simp
  then show ?thesis
    by (simp add: leaderboard_def stable_sort_desc_def key_before_def example_row_def)
qed

text \<open>
  C3 (amended).  For every ResultSet, what the run shows is the first 25 rows of a
  rearrangement of the rows sorted by call price, descending, rows whose call price is
  NaN last: it has \<open>min 25 n\<close> rows, all of them when there are at most 25 and none for
  an empty ResultSet, and no row left out has a greater call price than a row shown.
  The order of rows of equal call price is not fixed.  When the call prices are pairwise
  distinct the result is the stable leaderboard, which is always among the results
  allowed.
\<close>

theorem top_25_sorted_truncated:
  assumes "top_25 rows out"
  shows "sorted_wrt (\<lambda>a b. key_before (Call_Price a) (Call_Price b)) out
       \<and> length out = min 25 (length rows)
       \<and> mset out \<subseteq># mset rows
       \<and> (\<forall>a\<in>set out. \<forall>b\<in>#(mset rows - mset out). key_before (Call_Price a) (Call_Price b))
       \<and> (length rows \<le> 25 \<longrightarrow> mset out = mset rows)
       \<and> (rows = [] \<longrightarrow> out = [])
       \<and> (distinct (map Call_Price rows) \<longrightarrow> out = leaderboard rows)
       \<and> top_25 rows (leaderboard rows)"
proof -
  from assms obtain s where s: "sort_values_desc rows s" and out: "out = take 25 s"
    by (rule top_25_sorted_prefix)
  have m: "mset s = mset rows" and srt: "sorted_wrt row_before s"
    using s by (simp_all add: sort_values_desc_def)
  have len: "length s = length rows"
    using m by (rule mset_eq_length)
  have split: "mset rows = mset out + mset (drop 25 s)"
    unfolding out m [symmetric] by (metis append_take_drop_id mset_append)
  have 1: "sorted_wrt row_before out"
    unfolding out using srt by (rule sorted_wrt_take)
  have 2: "length out = min 25 (length rows)"
    by (simp add: out len min.commute)
  have 3: "mset out \<subseteq># mset rows"
    unfolding split by simp
  have "sorted_wrt row_before (take 25 s @ drop 25 s)"
    using srt by simp
  then have "\<forall>a\<in>set (take 25 s). \<forall>b\<in>set (drop 25 s). row_before a b"
    unfolding sorted_wrt_append by blast
  then have 4: "\<forall>a\<in>set out. \<forall>b\<in>#(mset rows - mset out). row_before a b"
    unfolding split out by simp
  have 5: "mset out = mset rows" if "length rows \<le> 25"
    using that by (simp add: out len m)
  have 6: "out = []" if "rows = []"
    using that m by (simp add: out)
  have 7: "out = leaderboard rows" if d: "distinct (map Call_Price rows)"
  proof -
    have "mset (map Call_Price s) = mset (map Call_Price rows)"
      using m by simp
    then have "distinct (map Call_Price s)"
      using d by (metis distinct_count_atmost_1 set_mset_mset)
    then have "s = stable_sort_desc rows"
      using srt sorted_stable_sort_desc m
      by (intro sorted_wrt_unique) (simp_all add: mset_stable_sort_desc)
    then show ?thesis by (simp add: out leaderboard_def)
  qed
  from 1 2 3 4 5 6 7 top_25_leaderboard show ?thesis by blast
qed

theorem top_25_distinct_example:
  "top_25 [example_row ''A'' 1, example_row ''B'' 3, example_row ''C'' 2]
          [example_row ''B'' 3, example_row ''C'' 2, example_row ''A'' 1]
   \<and> leaderboard [example_row ''A'' 1, example_row ''B'' 3, example_row ''C'' 2]
       = [example_row ''B'' 3, example_row ''C'' 2, example_row ''A'' 1]"
proof -
  let ?rows = "[example_row ''A'' 1, example_row ''B'' 3, example_row ''C'' 2]"
  let ?out = "[example_row ''B'' 3, example_row ''C'' 2, example_row ''A'' 1]"
  have "sort_values_desc ?rows ?out"
    by (simp add: sort_values_desc_def key_before_def example_row_def)
  then have "top_25 ?rows (take 25 ?out)"
    by (intro top_25.table) simp
  then have t: "top_25 ?rows ?out"
    by simp
  have d: "distinct (map Call_Price ?rows)"
    by (simp add: example_row_def)
  from top_25_sorted_truncated [OF t] d have "?out = leaderboard ?rows"
    by blast
  with t show ?thesis by simp
qed

subsection \<open>Rounding before ranking\<close>

lemma rint_eq:
  assumes "of_int n - 1 / 2 < x" and "x < of_int n + 1 / 2"
  shows "rint x = n"
proof (cases "of_int n \<le> x")
  case True
  then have f: "\<lfloor>x\<rfloor> = n" using assms(2) by linarith
  show ?thesis using assms(2) by (simp add: rint_def f Let_def)
next
  case False
  then have f: "\<lfloor>x\<rfloor> = n - 1" using assms(1) by linarith
  show ?thesis using assms(1) False by (simp add: rint_def f Let_def)
qed

lemma fround_eq:
  assumes "(of_int n - 1 / 2) / 10 ^ k < x" and "x < (of_int n + 1 / 2) / 10 ^ k"
  shows "fround k (Fin x) = Fin (of_int n / 10 ^ k)"
proof -
  have "of_int n - 1 / 2 < x * 10 ^ k" "x * 10 ^ k < of_int n + 1 / 2"
    using assms by (simp_all add: field_simps)
  then show ?thesis by (simp add: rint_eq)
qed

lemma black_scholes_call_zero_sigma_numpy:
  assumes "0 < S" and "0 < K" and "0 \<le> T"
  shows "black_scholes_call (mk a (Fin S)) (mk b (Fin K)) (mk c (Fin T)) (mk d (Fin r))
           (NpFloat (Fin 0)) =
         Inr (if ln (S / K) + r * T = 0 then (NpFloat NaN, NpFloat NaN, NpFloat NaN)
              else if 0 < ln (S / K) + r * T
                then (NpFloat (Fin (S - K * exp (- r * T))), NpFloat (Fin 1), NpFloat (Fin 0))
                else (NpFloat (Fin 0), NpFloat (Fin 0), NpFloat (Fin 0)))"
proof -
  have q: "0 < S / K" "K \<noteq> 0" using assms by simp_all
  show ?thesis
    using q assms(3)
    by (simp add: black_scholes_call_def py_truediv_def py_add_def py_mul_def py_sq_def
      py_sub_def py_neg_def fsub_def Let_def inf_sgn_def)
qed

lemma calculate_volatility_constant:
  assumes "0 < p" and "3 \<le> n"
  shows "\<exists>df'. calculate_volatility (price_frame (replicate n p)) = Inr (NpFloat (Fin 0), df')"
proof -
  have pos: "\<forall>q\<in>set (replicate n p). 0 < q" using assms(1) by simp
  have len: "3 \<le> length (replicate n p)" using assms(2) by simp
  have "\<forall>x\<in>set (log_returns (replicate n p)). x = 0"
    using assms(1) by (intro log_returns_const [where c = p]) auto
  then have "annualized_volatility (replicate n p) = 0"
    by (simp add: annualized_volatility_def sample_std_zero)
  then show ?thesis
    using calculate_volatility_positive [OF pos len] by simp
qed

text \<open>Bounds on the discount of 30 days at 5 per cent.\<close>

lemma discount_bounds:
  "3 / 733 \<le> 1 - exp (- (5 / 100) * (30 / 365 :: real))"
  "1 - exp (- (5 / 100) * (30 / 365 :: real)) \<le> 3 / 730"
proof -
  let ?x = "3 / 730 :: real"
  have e: "- (5 / 100) * (30 / 365 :: real) = - ?x" by simp
  have "1 + ?x \<le> exp ?x" by (rule exp_ge_add_one_self)
  then have "exp (- ?x) \<le> 1 / (1 + ?x)"
    by (simp add: exp_minus field_simps)
  then show "3 / 733 \<le> 1 - exp (- (5 / 100) * (30 / 365 :: real))"
    unfolding e by simp
  have "1 + (- ?x) \<le> exp (- ?x)" by (rule exp_ge_add_one_self)
  then show "1 - exp (- (5 / 100) * (30 / 365 :: real)) \<le> 3 / 730"
    unfolding e by simp
qed

lemma process_ticker_constant:
  assumes "0 < p"
    and lo: "(of_int n - 1 / 2) / 10 ^ 2 < p * (3 / 733)" and hi: "p * (3 / 730) < (of_int n + 1 / 2) / 10 ^ 2"
    and plo: "(of_int m - 1 / 2) / 10 ^ 2 < p" and phi: "p < (of_int m + 1 / 2) / 10 ^ 2"
    and a0: "0 \<le> a" and clo: "of_int a * (100 * (p * (3 / 730))) \<le> c" and chi: "c < (of_int a + 1) * (100 * (p * (3 / 733)))"
  shows "process_ticker (PyFloat (Fin (30 / 365))) (PyFloat (Fin (5 / 100))) (PyFloat (Fin c))
           ticker (Some (price_frame (replicate 30 p)))
         = Inr (Some \<lparr>Ticker = ticker, Price = Fin (of_int m / 10 ^ 2), Volatility = Fin 0,
                      Call_Price = Fin (of_int n / 10 ^ 2), Delta = Fin 1, Vega = Fin 0,
                      Contracts_You_Can_Afford = a\<rparr>)"
proof -
  define e where "e = 1 - exp (- (5 / 100) * (30 / 365 :: real))"
  have eb: "3 / 733 \<le> e" "e \<le> 3 / 730"
    unfolding e_def by (rule discount_bounds)+
  define cp where "cp = p - p * exp (- (5 / 100) * (30 / 365))"
  have cp: "cp = p * e" by (simp add: cp_def e_def algebra_simps)
  have cpb: "p * (3 / 733) \<le> cp" "cp \<le> p * (3 / 730)"
    unfolding cp using assms(1) eb by (simp_all add: mult_left_mono)
  have cppos: "0 < cp"
    using cpb(1) assms(1) by (smt (verit) mult_pos_pos zero_less_divide_iff)
  obtain df' where cv: "calculate_volatility (price_frame (replicate 30 p))
      = Inr (NpFloat (Fin 0), df')"
    using calculate_volatility_constant [OF assms(1), of 30] by auto
  have "black_scholes_call (mk True (Fin p)) (mk True (Fin p)) (mk False (Fin (30 / 365)))
          (mk False (Fin (5 / 100))) (NpFloat (Fin 0))
        = Inr (NpFloat (Fin cp), NpFloat (Fin 1), NpFloat (Fin 0))"
    using assms(1)
    by (subst black_scholes_call_zero_sigma_numpy) (simp_all add: cp_def)
  then have bs: "black_scholes_call (NpFloat (Fin p)) (NpFloat (Fin p)) (PyFloat (Fin (30 / 365)))
          (PyFloat (Fin (5 / 100))) (NpFloat (Fin 0))
        = Inr (NpFloat (Fin cp), NpFloat (Fin 1), NpFloat (Fin 0))"
    by simp
  have r_cp: "fround 2 (Fin cp) = Fin (of_int n / 10 ^ 2)"
    using lo hi cpb by (intro fround_eq) linarith+
  have r_p: "fround 2 (Fin p) = Fin (of_int m / 10 ^ 2)"
    using plo phi by (intro fround_eq)
  have r_0: "fround 4 (Fin 0) = Fin 0"
    using fround_eq [of 0 4 0] by simp
  have r_1: "fround 4 (Fin 1) = Fin 1"
    using fround_eq [of 10000 4 1] by simp
  have "of_int a \<le> c / (100 * cp)" "c / (100 * cp) < of_int a + 1"
  proof -
    have "of_int a * (100 * cp) \<le> of_int a * (100 * (p * (3 / 730)))"
      using a0 cpb(2) by (intro mult_left_mono) auto
    then have "of_int a * (100 * cp) \<le> c"
      using clo by linarith
    then show "of_int a \<le> c / (100 * cp)"
      using cppos by (simp add: pos_le_divide_eq)
    have "(of_int a + 1) * (100 * (p * (3 / 733))) \<le> (of_int a + 1) * (100 * cp)"
      using a0 cpb(1) by (intro mult_left_mono) auto
    then have "c < (of_int a + 1) * (100 * cp)"
      using chi by linarith
    then show "c / (100 * cp) < of_int a + 1"
      using cppos by (simp add: pos_divide_less_eq)
  qed
  then have "\<lfloor>c / (100 * cp)\<rfloor> = a"
    by linarith
  then have af: "affordable_contracts (PyFloat (Fin c)) (NpFloat (Fin cp)) = Inr a"
    using affordable_contracts_fin [of False c True cp] cppos by simp
  have g: "getitem (price_frame (replicate 30 p)) ''adj_close'' = Inr (replicate 30 (Fin p))"
    by (simp add: getitem_def price_frame_def)
  have n: "len (price_frame (replicate 30 p)) = 30"
    by (simp add: len_def price_frame_def)
  have l: "iloc_last (replicate 30 (Fin p)) = Inr (NpFloat (Fin p))"
    by (simp add: iloc_last_def)
  show ?thesis
    unfolding process_ticker_def option.case n g l cv bs af and_then_simps prod.case
      py_round_def val.simps r_cp r_p r_0 r_1
    by simp
qed


lemma main_two_constant_series:
  "main [''A'', ''B''] 2 (PyFloat (Fin 1000)) (Inr \<lparr>status_code = 503, content = NotJson\<rparr>)
        (replies
           [(''A'', Inr \<lparr>status_code = 200, content = Json (Inr (daily (replicate 30 100)))\<rparr>),
            (''B'', Inr \<lparr>status_code = 200,
                         content = Json (Inr (daily (replicate 30 (201 / 2))))\<rparr>)])
       = Inr \<lparr>final_results =
                [\<lparr>Ticker = ''A'', Price = Fin 100, Volatility = Fin 0,
                   Call_Price = Fin (41 / 100), Delta = Fin 1, Vega = Fin 0,
                   Contracts_You_Can_Afford = 24\<rparr>,
                 \<lparr>Ticker = ''B'', Price = Fin (201 / 2), Volatility = Fin 0,
                   Call_Price = Fin (41 / 100), Delta = Fin 1, Vega = Fin 0,
                   Contracts_You_Can_Afford = 24\<rparr>],
              progress_shown = [1 / 2, 1],
              warnings_shown = [''Failed to fetch risk-free rate from FRED API.'']\<rparr>"
proof -
  have A: "process_ticker (PyFloat (Fin (30 / 365))) (PyFloat (Fin (5 / 100))) (PyFloat (Fin 1000))
           ''A'' (Some (price_frame (replicate 30 100)))
         = Inr (Some \<lparr>Ticker = ''A'', Price = Fin 100, Volatility = Fin 0,
                   Call_Price = Fin (41 / 100), Delta = Fin 1, Vega = Fin 0,
                   Contracts_You_Can_Afford = 24\<rparr>)"
    using process_ticker_constant [of 100 41 10000 24 1000 "''A''"] by simp
  have B: "process_ticker (PyFloat (Fin (30 / 365))) (PyFloat (Fin (5 / 100))) (PyFloat (Fin 1000))
           ''B'' (Some (price_frame (replicate 30 (201 / 2))))
         = Inr (Some \<lparr>Ticker = ''B'', Price = Fin (201 / 2), Volatility = Fin 0,
                   Call_Price = Fin (41 / 100), Delta = Fin 1, Vega = Fin 0,
                   Contracts_You_Can_Afford = 24\<rparr>)"
    using process_ticker_constant [of "201 / 2" 41 10050 24 1000 "''B''"] by simp
  let ?get = "replies
           [(''A'', Inr \<lparr>status_code = 200, content = Json (Inr (daily (replicate 30 100)))\<rparr>),
            (''B'', Inr \<lparr>status_code = 200,
                         content = Json (Inr (daily (replicate 30 (201 / 2 :: real))))\<rparr>)]"
  have fa: "fetch_price_data (?get ''A'') = Inr (Some (price_frame (replicate 30 100)))"
    and fb: "fetch_price_data (?get ''B'') = Inr (Some (price_frame (replicate 30 (201 / 2))))"
    by (simp_all add: replies_def fetch_price_data_daily)
  have tk: "take 2 [''A'', ''B''] = [''A'', ''B'']" by simp
  have loop: "main_loop ?get (PyFloat (Fin (30 / 365))) (PyFloat (Fin (5 / 100)))
        (PyFloat (Fin 1000)) 2 0 [''A'', ''B''] [] []
      = Inr ([\<lparr>Ticker = ''A'', Price = Fin 100, Volatility = Fin 0,
                   Call_Price = Fin (41 / 100), Delta = Fin 1, Vega = Fin 0,
                   Contracts_You_Can_Afford = 24\<rparr>,
                 \<lparr>Ticker = ''B'', Price = Fin (201 / 2), Volatility = Fin 0,
                   Call_Price = Fin (41 / 100), Delta = Fin 1, Vega = Fin 0,
                   Contracts_You_Can_Afford = 24\<rparr>], [1 / 2, 1])"
    apply (simp only: main_loop.simps fa fb A B sum.case option.case)
    apply simp
    done
  show ?thesis
    unfolding main_def fallback_rate prod.case sum.case tk loop ..
qed

text \<open>
  C2, as stated, fails.  A run over two symbols with constant prices 100 and 100.5 (so
  both volatilities are 0) and the default rate: the pricer returns two different
  prices, \<open>100 (1 - e\<^sup>-\<^sup>r\<^sup>T) < 100.5 (1 - e\<^sup>-\<^sup>r\<^sup>T)\<close>, but the rows appended to the results,
  which are all the ranking sees, both hold the call price 0.41.
\<close>

theorem main_ranks_rounded_prices:
  "100 - 100 * exp (- (5 / 100) * (30 / 365)) < (201 / 2 - 201 / 2 * exp (- (5 / 100) * (30 / 365)) :: real)
   \<and> map_sum id fst (black_scholes_call (NpFloat (Fin 100)) (NpFloat (Fin 100))
        (PyFloat (Fin (30 / 365))) (PyFloat (Fin (5 / 100))) (NpFloat (Fin 0)))
       = Inr (NpFloat (Fin (100 - 100 * exp (- (5 / 100) * (30 / 365)))))
   \<and> map_sum id fst (black_scholes_call (NpFloat (Fin (201 / 2))) (NpFloat (Fin (201 / 2)))
        (PyFloat (Fin (30 / 365))) (PyFloat (Fin (5 / 100))) (NpFloat (Fin 0)))
       = Inr (NpFloat (Fin (201 / 2 - 201 / 2 * exp (- (5 / 100) * (30 / 365)))))
   \<and> main [''A'', ''B''] 2 (PyFloat (Fin 1000)) (Inr \<lparr>status_code = 503, content = NotJson\<rparr>)
        (replies
           [(''A'', Inr \<lparr>status_code = 200, content = Json (Inr (daily (replicate 30 100)))\<rparr>),
            (''B'', Inr \<lparr>status_code = 200,
                         content = Json (Inr (daily (replicate 30 (201 / 2))))\<rparr>)])
       = Inr \<lparr>final_results =
                [\<lparr>Ticker = ''A'', Price = Fin 100, Volatility = Fin 0,
                   Call_Price = Fin (41 / 100), Delta = Fin 1, Vega = Fin 0,
                   Contracts_You_Can_Afford = 24\<rparr>,
                 \<lparr>Ticker = ''B'', Price = Fin (201 / 2), Volatility = Fin 0,
                   Call_Price = Fin (41 / 100), Delta = Fin 1, Vega = Fin 0,
                   Contracts_You_Can_Afford = 24\<rparr>],
              progress_shown = [1 / 2, 1],
              warnings_shown = [''Failed to fetch risk-free rate from FRED API.'']\<rparr>"
proof -
  define E :: real where "E = exp (- (5 / 100) * (30 / 365))"
  have "E < 1" by (simp add: E_def)
  then have "100 - 100 * E < 201 / 2 - 201 / 2 * E" by simp
  then have lt: "100 - 100 * exp (- (5 / 100) * (30 / 365))
      < (201 / 2 - 201 / 2 * exp (- (5 / 100) * (30 / 365)) :: real)"
    unfolding E_def .
  have bs: "map_sum id fst (black_scholes_call (NpFloat (Fin p)) (NpFloat (Fin p))
        (PyFloat (Fin (30 / 365))) (PyFloat (Fin (5 / 100))) (NpFloat (Fin 0)))
       = Inr (NpFloat (Fin (p - p * exp (- (5 / 100) * (30 / 365)))))" if "0 < p" for p
    using black_scholes_call_zero_sigma_numpy [of p p "30 / 365" True True False False "5 / 100"] that
    by simp
  have p: "(0::real) < 100" "(0::real) < 201 / 2" by simp_all
  from lt bs [OF p(1)] bs [OF p(2)] main_two_constant_series show ?thesis by (intro conjI)
qed

lemma process_ticker_fields:
  assumes "process_ticker T r liq ticker fetched = Inr (Some row)"
  shows "Ticker row = ticker
       \<and> (\<exists>df adj_close S sigma df' call_price delta vega.
            fetched = Some df
          \<and> getitem df ''adj_close'' = Inr adj_close \<and> iloc_last adj_close = Inr S
          \<and> calculate_volatility df = Inr (sigma, df')
          \<and> black_scholes_call S S T r sigma = Inr (call_price, delta, vega)
          \<and> Price row = fround 2 (val S) \<and> Volatility row = fround 4 (val sigma)
          \<and> Call_Price row = fround 2 (val call_price)
          \<and> Delta row = fround 4 (val delta) \<and> Vega row = fround 4 (val vega))"
  using assms
  by (auto simp: process_ticker_def and_then_def py_round_def
      split: option.splits if_splits sum.splits prod.splits)

lemma main_loop_row_origin:
  assumes "main_loop get T r liq n i tickers acc prog = Inr (res, shown)"
    and "row \<in> set res"
  shows "row \<in> set acc
       \<or> (\<exists>ticker\<in>set tickers. \<exists>fetched. fetch_price_data (get ticker) = Inr fetched
            \<and> process_ticker T r liq ticker fetched = Inr (Some row))"
  using assms
proof (induction tickers arbitrary: i acc prog)
  case Nil
  then show ?case by simp
next
  case (Cons ticker rest)
  from Cons.prems(1) obtain fetched x where
    f: "fetch_price_data (get ticker) = Inr fetched"
    and p: "process_ticker T r liq ticker fetched = Inr x"
    and l: "main_loop get T r liq n (Suc i) rest
              (acc @ (case x of None \<Rightarrow> [] | Some y \<Rightarrow> [y]))
              (prog @ [real (i + 1) / real n]) = Inr (res, shown)"
    by (auto split: sum.splits)
  from Cons.IH [OF l Cons.prems(2)] f p show ?case
    by (auto split: option.splits)
qed

text \<open>
  C2 (amended).  Rounding is applied when a row is built, inside the loop and before the
  sort: every row of the results holds the spot and the call price rounded to 2 decimals
  and the volatility, delta and vega rounded to 4 decimals, of the values computed for
  its symbol.  The ranking sorts on the call price held in the rows, that is, on the
  rounded one.
\<close>

theorem rows_hold_rounded_values:
  assumes "main tickers n liq rate_response get = Inr run"
    and "row \<in> set (final_results run)"
  shows "(\<exists>r w df adj_close S sigma df' call_price delta vega.
            fetch_risk_free_rate rate_response [] = (Inr r, w)
          \<and> fetch_price_data (get (Ticker row)) = Inr (Some df)
          \<and> getitem df ''adj_close'' = Inr adj_close \<and> iloc_last adj_close = Inr S
          \<and> calculate_volatility df = Inr (sigma, df')
          \<and> black_scholes_call S S (PyFloat (Fin (30 / 365))) r sigma
              = Inr (call_price, delta, vega)
          \<and> Price row = fround 2 (val S) \<and> Volatility row = fround 4 (val sigma)
          \<and> Call_Price row = fround 2 (val call_price)
          \<and> Delta row = fround 4 (val delta) \<and> Vega row = fround 4 (val vega))
       \<and> (\<forall>out. top_25 (final_results run) out
             \<longrightarrow> sorted_wrt (\<lambda>a b. key_before (Call_Price a) (Call_Price b)) out)"
proof -
  from assms(1) obtain r w shown where
    rate: "fetch_risk_free_rate rate_response [] = (Inr r, w)"
    and loop: "main_loop get (PyFloat (Fin (30 / 365))) r liq n 0 (take n tickers) [] []
        = Inr (final_results run, shown)"
    by (auto simp: main_def split: prod.splits sum.splits)
  from main_loop_row_origin [OF loop assms(2)] obtain ticker fetched where
    f: "fetch_price_data (get ticker) = Inr fetched"
    and "process_ticker (PyFloat (Fin (30 / 365))) r liq ticker fetched = Inr (Some row)"
    by auto
  from process_ticker_fields [OF this(2)] f rate
  have 1: "\<exists>r w df adj_close S sigma df' call_price delta vega.
            fetch_risk_free_rate rate_response [] = (Inr r, w)
          \<and> fetch_price_data (get (Ticker row)) = Inr (Some df)
          \<and> getitem df ''adj_close'' = Inr adj_close \<and> iloc_last adj_close = Inr S
          \<and> calculate_volatility df = Inr (sigma, df')
          \<and> black_scholes_call S S (PyFloat (Fin (30 / 365))) r sigma
              = Inr (call_price, delta, vega)
          \<and> Price row = fround 2 (val S) \<and> Volatility row = fround 4 (val sigma)
          \<and> Call_Price row = fround 2 (val call_price)
          \<and> Delta row = fround 4 (val delta) \<and> Vega row = fround 4 (val vega)"
    by blast
  have 2: "sorted_wrt row_before out" if "top_25 (final_results run) out" for out
  proof -
    from that obtain s where "sort_values_desc (final_results run) s" "out = take 25 s"
      by (rule top_25_sorted_prefix)
    then show ?thesis
      by (simp add: sort_values_desc_def)
  qed
  from 1 2 show ?thesis by blast
qed


theorem rows_hold_rounded_values_example:
  "\<exists>sigma df' call_price delta vega.
      calculate_volatility (price_frame (replicate 30 100)) = Inr (sigma, df')
    \<and> black_scholes_call (NpFloat (Fin 100)) (NpFloat (Fin 100)) (PyFloat (Fin (30 / 365)))
         (PyFloat (Fin (5 / 100))) sigma = Inr (call_price, delta, vega)
    \<and> fround 2 (val call_price) = Fin (41 / 100)
    \<and> fround 4 (val delta) = Fin 1"
proof -
  let ?get = "replies
           [(''A'', Inr \<lparr>status_code = 200, content = Json (Inr (daily (replicate 30 100)))\<rparr>),
            (''B'', Inr \<lparr>status_code = 200,
                         content = Json (Inr (daily (replicate 30 (201 / 2 :: real))))\<rparr>)]"
  let ?A = "\<lparr>Ticker = ''A'', Price = Fin 100, Volatility = Fin 0,
             Call_Price = Fin (41 / 100), Delta = Fin 1, Vega = Fin 0,
             Contracts_You_Can_Afford = 24\<rparr>"
  let ?B = "\<lparr>Ticker = ''B'', Price = Fin (201 / 2), Volatility = Fin 0,
             Call_Price = Fin (41 / 100), Delta = Fin 1, Vega = Fin 0,
             Contracts_You_Can_Afford = 24\<rparr>"
  have mem: "?A \<in> set (final_results \<lparr>final_results = [?A, ?B], progress_shown = [1 / 2, 1],
      warnings_shown = [''Failed to fetch risk-free rate from FRED API.'']\<rparr>)"
    by simp
  from rows_hold_rounded_values [OF main_two_constant_series mem]
  obtain r w df adj_close S sigma df' call_price delta vega where
    rate: "fetch_risk_free_rate (Inr \<lparr>status_code = 503, content = NotJson\<rparr>) [] = (Inr r, w)"
    and f: "fetch_price_data (?get (Ticker ?A)) = Inr (Some df)"
    and g: "getitem df ''adj_close'' = Inr adj_close"
    and l: "iloc_last adj_close = Inr S"
    and cv: "calculate_volatility df = Inr (sigma, df')"
    and bs: "black_scholes_call S S (PyFloat (Fin (30 / 365))) r sigma
              = Inr (call_price, delta, vega)"
    and cp: "Call_Price ?A = fround 2 (val call_price)"
    and d: "Delta ?A = fround 4 (val delta)"
    by blast
  have r: "r = PyFloat (Fin (5 / 100))"
    using rate unfolding fallback_rate by simp
  have df: "df = price_frame (replicate 30 100)"
    using f by (simp add: replies_def fetch_price_data_daily)
  have "adj_close = replicate 30 (Fin 100)"
    using g by (simp add: df getitem_def price_frame_def)
  then have S: "S = NpFloat (Fin 100)"
    using l by (simp add: iloc_last_def)
  have "calculate_volatility (price_frame (replicate 30 100)) = Inr (sigma, df')
    \<and> black_scholes_call (NpFloat (Fin 100)) (NpFloat (Fin 100)) (PyFloat (Fin (30 / 365)))
         (PyFloat (Fin (5 / 100))) sigma = Inr (call_price, delta, vega)
    \<and> fround 2 (val call_price) = Fin (41 / 100)
    \<and> fround 4 (val delta) = Fin 1"
    using cv bs cp d unfolding r df S by simp
  then show ?thesis by blast
qed

end
